theory Spec2Isabelle
  imports Main
begin

section \<open>Digital-word reconstruction and trial/block alignment (spike_sorting/utils_oe.py)\<close>

text \<open>
  The theory embeds three functions of \<^verbatim>\<open>src/spike_sorting/utils_oe.py\<close>:
  \<^verbatim>\<open>reconstruct_8bits_words\<close> (lines 98-115), \<^verbatim>\<open>check_strobes\<close> (lines 118-142) and
  \<^verbatim>\<open>find_events_codes\<close> (lines 145-191). NumPy arrays and pandas columns of integers
  are lists of \<open>int\<close>; array positions are \<open>nat\<close> (they come from \<^verbatim>\<open>np.where\<close>, which
  never yields a negative position). A Python exception is a value \<open>Inl e\<close> of a sum type.
\<close>

subsection \<open>Exceptions and array primitives\<close>

datatype error = IndexError | ValueError

text \<open>\<^verbatim>\<open>arr[a:b]\<close> for non-negative bounds: both bounds are clipped to the array.\<close>

definition slice :: "'a list \<Rightarrow> nat \<Rightarrow> nat \<Rightarrow> 'a list" where
  "slice arr a b = take (b - a) (drop a arr)"

text \<open>\<^verbatim>\<open>np.where(arr == v)[0]\<close>: the positions holding \<open>v\<close>, ascending.\<close>

definition np_where_eq :: "int list \<Rightarrow> int \<Rightarrow> nat list" where
  "np_where_eq arr v = filter (\<lambda>i. arr ! i = v) [0..<length arr]"

subsection \<open>Reading the register: \<^verbatim>\<open>int("".join([str(item) for item in current_8code]), 2)\<close>\<close>

definition digit_char :: "nat \<Rightarrow> char" where
  "digit_char d = char_of (48 + d)"

fun str_nat :: "nat \<Rightarrow> string" where
  "str_nat n = (if n < 10 then [digit_char n] else str_nat (n div 10) @ [digit_char (n mod 10)])"

declare str_nat.simps [simp del]

text \<open>\<^verbatim>\<open>str(item)\<close> of an integer: its decimal digits, after a minus sign when negative.\<close>

definition str_int :: "int \<Rightarrow> string" where
  "str_int i = (if i < 0 then CHR ''-'' # str_nat (nat (- i)) else str_nat (nat i))"

text \<open>
  \<^verbatim>\<open>int(s, 2)\<close> on a text of binary digits; any other character raises \<^verbatim>\<open>ValueError\<close>.
  The text parsed by the decoder starts with the digit of register position 0 and holds
  only decimal digits and minus signs, so the sign, prefix, underscore and blank forms
  that Python's \<^verbatim>\<open>int\<close> also accepts cannot reach it.
\<close>

fun parse_bits :: "int \<Rightarrow> string \<Rightarrow> error + int" where
  "parse_bits acc [] = Inr acc"
| "parse_bits acc (c # cs) =
     (if c = CHR ''0'' then parse_bits (2 * acc) cs
      else if c = CHR ''1'' then parse_bits (2 * acc + 1) cs
      else Inl ValueError)"

definition int_base2 :: "string \<Rightarrow> error + int" where
  "int_base2 s = (if s = [] then Inl ValueError else parse_bits 0 s)"

definition word_of_register :: "int list \<Rightarrow> error + int" where
  "word_of_register current_8code = int_base2 (concat (map str_int current_8code))"

subsection \<open>\<^verbatim>\<open>reconstruct_8bits_words\<close> (lines 98-115)\<close>

text \<open>
  Lines 107-111, the body of the loop over \<open>ch\<close>: the positions of channel \<open>ch + 1\<close> in
  the slice \<^verbatim>\<open>e_channel[idx_old:idx_strobe]\<close>; when there is one, \<^verbatim>\<open>e_state\<close> is read
  at the last of them (a position of the slice, used as a position of the whole array)
  and stored at register position \<open>7 - ch\<close>; otherwise the register keeps its entry.
  Reading \<^verbatim>\<open>e_state\<close> past its end raises \<^verbatim>\<open>IndexError\<close>; this cannot happen for the two
  columns of one event table, which is what \<^verbatim>\<open>find_events_codes\<close> passes.
\<close>

definition update_line ::
  "nat \<Rightarrow> nat \<Rightarrow> int list \<Rightarrow> int list \<Rightarrow> int list \<Rightarrow> nat \<Rightarrow> error + int list" where
  "update_line idx_old idx_strobe e_channel e_state current_8code ch =
     (let idx_ch = np_where_eq (slice e_channel idx_old idx_strobe) (int ch + 1) in
      if idx_ch \<noteq> [] then
        (if last idx_ch < length e_state
         then Inr (current_8code[7 - ch := e_state ! last idx_ch])
         else Inl IndexError)
      else Inr current_8code)"

text \<open>Lines 105-111: \<^verbatim>\<open>for ch in np.arange(0, 7)\<close>, as a recursion over the channels left.\<close>

fun scan_lines ::
  "nat \<Rightarrow> nat \<Rightarrow> int list \<Rightarrow> int list \<Rightarrow> int list \<Rightarrow> nat list \<Rightarrow> error + int list" where
  "scan_lines idx_old idx_strobe e_channel e_state current_8code [] = Inr current_8code"
| "scan_lines idx_old idx_strobe e_channel e_state current_8code (ch # chs) =
     (case update_line idx_old idx_strobe e_channel e_state current_8code ch of
        Inl e \<Rightarrow> Inl e
      | Inr reg \<Rightarrow> scan_lines idx_old idx_strobe e_channel e_state reg chs)"

text \<open>
  Lines 103-113: the loop over the strobes. The register \<open>current_8code\<close> is carried from
  one strobe to the next; \<open>idx_old\<close> is passed on as it is, since the source never
  assigns it after line 99. The words are stored in a float array; the model keeps them
  as the integers \<^verbatim>\<open>int(..., 2)\<close> returns.
\<close>

fun strobe_loop ::
  "nat \<Rightarrow> int list \<Rightarrow> int list \<Rightarrow> int list \<Rightarrow> nat list \<Rightarrow> error + int list" where
  "strobe_loop idx_old e_channel e_state current_8code [] = Inr []"
| "strobe_loop idx_old e_channel e_state current_8code (idx_strobe # rest) =
     (case scan_lines idx_old idx_strobe e_channel e_state current_8code [0..<7] of
        Inl e \<Rightarrow> Inl e
      | Inr reg \<Rightarrow>
          (case word_of_register reg of
             Inl e \<Rightarrow> Inl e
           | Inr w \<Rightarrow>
               (case strobe_loop idx_old e_channel e_state reg rest of
                  Inl e \<Rightarrow> Inl e
                | Inr ws \<Rightarrow> Inr (w # ws))))"

definition reconstruct_8bits_words :: "nat list \<Rightarrow> int list \<Rightarrow> int list \<Rightarrow> error + int list" where
  "reconstruct_8bits_words real_strobes e_channel e_state =
     strobe_loop 0 e_channel e_state (replicate 8 0) real_strobes"

subsection \<open>The behavioural record\<close>

text \<open>
  \<^verbatim>\<open>bhv\<close> is the HDF5 group \<^verbatim>\<open>ML\<close>: its members in the order \<^verbatim>\<open>bhv.keys()\<close> lists them,
  each under its name. A member holds the two datasets the code reads:
  \<^verbatim>\<open>BehavioralCodes/CodeNumbers\<close> and \<^verbatim>\<open>Block\<close>, both two-dimensional (a list of rows).
  The names of a group are unique, so \<^verbatim>\<open>bhv[key]\<close> for a key taken from \<^verbatim>\<open>bhv.keys()\<close> is
  the member listed with that key.
\<close>

record trial =
  CodeNumbers :: "int list list"
  Block :: "int list list"

type_synonym bhv = "(string \<times> trial) list"

text \<open>\<^verbatim>\<open>list(bhv.keys())[1:-1]\<close>, each key followed to its member.\<close>

definition trials_of :: "bhv \<Rightarrow> trial list" where
  "trials_of bhv = map snd (butlast (tl bhv))"

subsection \<open>\<^verbatim>\<open>check_strobes\<close> (lines 118-142)\<close>

text \<open>
  Lines 120-123: the first row of every trial's \<^verbatim>\<open>CodeNumbers\<close>; \<^verbatim>\<open>list(...)[0]\<close> raises
  \<^verbatim>\<open>IndexError\<close> on a dataset without rows.
\<close>

fun first_rows :: "trial list \<Rightarrow> error + int list list" where
  "first_rows [] = Inr []"
| "first_rows (t # ts) =
     (case CodeNumbers t of
        [] \<Rightarrow> Inl IndexError
      | row # _ \<Rightarrow>
          (case first_rows ts of
             Inl e \<Rightarrow> Inl e
           | Inr rows \<Rightarrow> Inr (row # rows)))"

text \<open>Line 124: \<^verbatim>\<open>np.concatenate\<close> raises \<^verbatim>\<open>ValueError\<close> on an empty list of arrays.\<close>

definition np_concatenate :: "int list list \<Rightarrow> error + int list" where
  "np_concatenate arrs = (if arrs = [] then Inl ValueError else Inr (concat arrs))"

definition bhv_codes_of :: "bhv \<Rightarrow> error + int list" where
  "bhv_codes_of bhv =
     (case first_rows (trials_of bhv) of
        Inl e \<Rightarrow> Inl e
      | Inr rows \<Rightarrow> np_concatenate rows)"

text \<open>
  Line 139, \<^verbatim>\<open>np.sum(bhv_codes - full_word) != 0\<close>, is float64 arithmetic: \<^verbatim>\<open>full_word\<close> is a
  float64 array. The lists of the model hold the integer values of the arrays. When
  every code and every word has magnitude at most \<open>2 ^ 53\<close> and the absolute differences
  add up to at most \<open>2 ^ 53\<close>, every intermediate result is an integer of magnitude at
  most \<open>2 ^ 53\<close>, which float64 holds exactly, in whatever order \<^verbatim>\<open>np.sum\<close> adds; the test
  then is the test on the exact sum. Outside that range the outcome depends on rounding
  and on the order of the additions, which the source does not fix: the model then
  allows both outcomes.
\<close>

definition float64_exact :: "int list \<Rightarrow> int list \<Rightarrow> bool" where
  "float64_exact bhv_codes full_word =
     (list_all (\<lambda>x. \<bar>x\<bar> \<le> 2 ^ 53) bhv_codes \<and> list_all (\<lambda>x. \<bar>x\<bar> \<le> 2 ^ 53) full_word
      \<and> sum_list (map abs (map2 (-) bhv_codes full_word)) \<le> 2 ^ 53)"

definition np_sum_diff_nonzero :: "int list \<Rightarrow> int list \<Rightarrow> bool set" where
  "np_sum_diff_nonzero bhv_codes full_word =
     (if float64_exact bhv_codes full_word
      then {sum_list (map2 (-) bhv_codes full_word) \<noteq> 0}
      else {True, False})"

text \<open>
  The function returns nothing; what it does is log. A log entry records one call of
  \<^verbatim>\<open>logging.info\<close>: the message and the arguments given with it. (Lines 128-129 pass an
  argument to a message without a placeholder; the logging module reports that on its
  own error stream when it formats the record and raises nothing.) The result pairs the
  logs the call can leave, one for each possible outcome \<open>differ\<close> of the test in line
  139 (a single log whenever that test is exact or is not reached), with \<open>Inr ()\<close> for
  a normal return or \<open>Inl e\<close> for an exception.
\<close>

type_synonym log_call = "string \<times> int list"

definition check_strobes ::
  "bhv \<Rightarrow> int list \<Rightarrow> nat list \<Rightarrow> log_call list set \<times> (error + unit)" where
  "check_strobes bhv full_word real_strobes =
     (case bhv_codes_of bhv of
        Inl e \<Rightarrow> ({[]}, Inl e)
      | Inr bhv_codes \<Rightarrow>
          ((\<lambda>differ.
              (if length full_word \<noteq> length real_strobes
               then [(''Warning, Strobe and codes number do not match'', []),
                     (''Strobes ='', [int (length real_strobes)]),
                     (''codes number ='', [int (length full_word)])]
               else [(''Strobe and codes number do match'', []),
                     (''Strobes = %d'', [int (length real_strobes)]),
                     (''codes number = %d'', [int (length full_word)])])
              @
              (if length full_word \<noteq> length bhv_codes
               then [(''Warning, ML and OE code numbers do not match'', [])]
               else (''ML and OE code numbers do match'', []) #
                    (if differ
                     then [(''Warning, ML and OE codes are different'', [])]
                     else [(''ML and OE codes are the same'', [])])))
           ` np_sum_diff_nonzero bhv_codes full_word,
           Inr ()))"

subsection \<open>\<^verbatim>\<open>find_events_codes\<close> (lines 145-191)\<close>

text \<open>The event table: one row per transition, with the three columns the code reads.\<close>

record event =
  channel :: int
  state :: int
  timestamp :: int

text \<open>Lines 149-155: the rows with channel 8, state 1 and a positive timestamp.\<close>

definition idx_real_strobes :: "event list \<Rightarrow> nat list" where
  "idx_real_strobes events =
     filter (\<lambda>i. channel (events ! i) = 8 \<and> state (events ! i) = 1 \<and> timestamp (events ! i) > 0)
       [0..<length events]"

text \<open>\<^verbatim>\<open>arr[words == code]\<close>: the entries of \<open>arr\<close> at the positions where \<open>words\<close> holds \<open>code\<close>.\<close>

definition mask_select :: "int list \<Rightarrow> int list \<Rightarrow> int \<Rightarrow> int list" where
  "mask_select arr words code = map fst (filter (\<lambda>(x, w). w = code) (zip arr words))"

text \<open>
  Lines 173-174: the block label of every trial, \<^verbatim>\<open>bhv[key]["Block"][0][0]\<close>; an empty
  dataset or an empty first row raises \<^verbatim>\<open>IndexError\<close>.
\<close>

fun trial_blocks :: "trial list \<Rightarrow> error + int list" where
  "trial_blocks [] = Inr []"
| "trial_blocks (t # ts) =
     (case Block t of
        [] \<Rightarrow> Inl IndexError
      | row # _ \<Rightarrow>
          (case row of
             [] \<Rightarrow> Inl IndexError
           | b # _ \<Rightarrow>
               (case trial_blocks ts of
                  Inl e \<Rightarrow> Inl e
                | Inr blocks \<Rightarrow> Inr (b # blocks))))"

text \<open>\<^verbatim>\<open>np.unique\<close>: the array sorted, each run of equal values kept once.\<close>

definition np_unique :: "int list \<Rightarrow> int list" where
  "np_unique arr = remdups_adj (sort arr)"

text \<open>\<^verbatim>\<open>arr[idx]\<close> for an array of positions: \<^verbatim>\<open>IndexError\<close> when one is past the end.\<close>

definition take_idx :: "int list \<Rightarrow> nat list \<Rightarrow> error + int list" where
  "take_idx arr idx =
     (if list_all (\<lambda>i. i < length arr) idx then Inr (map ((!) arr) idx) else Inl IndexError)"

text \<open>
  Lines 179-183: the loop over the distinct labels. \<^verbatim>\<open>blocks == block\<close> compares the list
  of NumPy scalars with a NumPy scalar, which NumPy evaluates element by element.
\<close>

fun block_loop ::
  "int list \<Rightarrow> int list \<Rightarrow> int list \<Rightarrow> int list \<Rightarrow> error + (int list list \<times> int list list)" where
  "block_loop blocks start_trials end_trials [] = Inr ([], [])"
| "block_loop blocks start_trials end_trials (block # rest) =
     (let idx_block = np_where_eq blocks block in
      case take_idx start_trials idx_block of
        Inl e \<Rightarrow> Inl e
      | Inr s \<Rightarrow>
          (case take_idx end_trials idx_block of
             Inl e \<Rightarrow> Inl e
           | Inr t \<Rightarrow>
               (case block_loop blocks start_trials end_trials rest of
                  Inl e \<Rightarrow> Inl e
                | Inr (bl_start_trials, bl_end_trials) \<Rightarrow>
                    Inr (s # bl_start_trials, t # bl_end_trials))))"

text \<open>Lines 176-191: the block segmentation and the last three components returned.\<close>

definition segment_blocks ::
  "int list \<Rightarrow> int list \<Rightarrow> int list \<Rightarrow> error + (int list list \<times> int list list \<times> int list)" where
  "segment_blocks blocks start_trials end_trials =
     (case block_loop blocks start_trials end_trials (np_unique blocks) of
        Inl e \<Rightarrow> Inl e
      | Inr (bl_start_trials, bl_end_trials) \<Rightarrow>
          Inr (bl_start_trials, bl_end_trials, np_unique blocks))"

text \<open>
  The whole function. \<^verbatim>\<open>config.START_CODE\<close> and \<^verbatim>\<open>config.END_CODE\<close> come from a module
  that is not among the sources; they are parameters here. The result pairs the logs
  the call can leave (the entry of line 148, then what \<open>check_strobes\<close> logs) with the
  tuple returned or the exception raised.
\<close>

definition find_events_codes ::
  "int \<Rightarrow> int \<Rightarrow> event list \<Rightarrow> bhv \<Rightarrow>
   log_call list set \<times>
   (error + (int list \<times> int list \<times> int list list \<times> int list list \<times> int list))" where
  "find_events_codes START_CODE END_CODE events bhv =
     (let log0 = [(''Reconstructing 8 bit words'', [])];
          idx = idx_real_strobes events in
      case reconstruct_8bits_words idx (map channel events) (map state events) of
        Inl e \<Rightarrow> ({log0}, Inl e)
      | Inr full_word \<Rightarrow>
          (case check_strobes bhv full_word idx of
             (logs, Inl e) \<Rightarrow> ((@) log0 ` logs, Inl e)
           | (logs, Inr _) \<Rightarrow>
               (let real_strobes = map (\<lambda>i. timestamp (events ! i)) idx;
                    start_trials = mask_select real_strobes full_word START_CODE;
                    end_trials = mask_select real_strobes full_word END_CODE in
                case trial_blocks (trials_of bhv) of
                  Inl e \<Rightarrow> ((@) log0 ` logs, Inl e)
                | Inr blocks \<Rightarrow>
                    (case segment_blocks blocks start_trials end_trials of
                       Inl e \<Rightarrow> ((@) log0 ` logs, Inl e)
                     | Inr (bl_start_trials, bl_end_trials, labels) \<Rightarrow>
                         ((@) log0 ` logs,
                          Inr (full_word, real_strobes, bl_start_trials, bl_end_trials, labels))))))"

section \<open>The decoder as the specification words it (section 4.1)\<close>

text \<open>
  An event stream is well formed when every state is 0 or 1 (the specification's events
  are boolean-valued), and a data line is one of the channels 1 to 7.
\<close>

definition binary_states :: "int list \<Rightarrow> bool" where
  "binary_states e_state = list_all (\<lambda>x. x = 0 \<or> x = 1) e_state"

definition is_data_line :: "int \<Rightarrow> bool" where
  "is_data_line c = (1 \<le> c \<and> c \<le> 7)"

text \<open>
  The definitions named \<open>spec_\<close> follow the specification's algorithm, not the source.
  The window of a strobe \<open>s\<close> is the sub-range of the \<open>n\<close> events from the previous
  strobe's index (exclusive) to \<open>s\<close> (exclusive); the first strobe has no previous one
  and its window starts at index 0, the first event. (The first event belongs to the
  first window: the specification's own example, a single event on channel 1 right
  before a strobe and no other event, decodes to 1.)
\<close>

definition spec_window :: "nat \<Rightarrow> nat option \<Rightarrow> nat \<Rightarrow> nat list" where
  "spec_window n prev s = (case prev of None \<Rightarrow> [0..<min s n] | Some p \<Rightarrow> [Suc p..<min s n])"

text \<open>
  For a data line \<open>ch\<close> in 1..7: when the window holds a transition on \<open>ch\<close>, register
  bit \<open>7 - (ch - 1)\<close> becomes the state of the last one; otherwise the register is left
  as it is.
\<close>

definition spec_set_bit :: "int list \<Rightarrow> int list \<Rightarrow> nat list \<Rightarrow> nat \<Rightarrow> int list \<Rightarrow> int list" where
  "spec_set_bit e_channel e_state window ch register =
     (let transitions = filter (\<lambda>i. e_channel ! i = int ch) window in
      if transitions \<noteq> [] then register[7 - (ch - 1) := e_state ! last transitions]
      else register)"

text \<open>The register read most significant bit first, as a big-endian binary number.\<close>

definition spec_read_word :: "int list \<Rightarrow> int" where
  "spec_read_word register = foldl (\<lambda>acc bit. 2 * acc + bit) 0 register"

text \<open>One word per strobe, the register carried from strobe to strobe.\<close>

fun spec_decode_from :: "int list \<Rightarrow> int list \<Rightarrow> nat option \<Rightarrow> int list \<Rightarrow> nat list \<Rightarrow> int list" where
  "spec_decode_from e_channel e_state prev register [] = []"
| "spec_decode_from e_channel e_state prev register (s # rest) =
     (let register' = fold (spec_set_bit e_channel e_state (spec_window (length e_channel) prev s)) [1..<8] register
      in spec_read_word register' # spec_decode_from e_channel e_state (Some s) register' rest)"

definition spec_decode :: "int list \<Rightarrow> int list \<Rightarrow> nat list \<Rightarrow> int list" where
  "spec_decode e_channel e_state strobes = spec_decode_from e_channel e_state None (replicate 8 0) strobes"

section \<open>Auxiliary notions for the proofs\<close>

text \<open>The positions of channel \<open>v\<close> before position \<open>s\<close>: what the source's slice from 0 finds.\<close>

definition line_idx :: "int list \<Rightarrow> nat \<Rightarrow> int \<Rightarrow> nat list" where
  "line_idx e_channel s v = filter (\<lambda>i. e_channel ! i = v) [0..<min s (length e_channel)]"

text \<open>
  Both inner loops store at most one value per channel, each channel at a position of its
  own: \<open>put_entry\<close> is one such store, \<open>entry_after\<close> the entry it leaves.
\<close>

definition put_entry :: "('c \<Rightarrow> nat) \<Rightarrow> ('c \<Rightarrow> int option) \<Rightarrow> 'c \<Rightarrow> int list \<Rightarrow> int list" where
  "put_entry pos val c reg = (case val c of None \<Rightarrow> reg | Some v \<Rightarrow> reg[pos c := v])"

definition entry_after :: "('c \<Rightarrow> int option) \<Rightarrow> 'c \<Rightarrow> int \<Rightarrow> int" where
  "entry_after val c old = (case val c of None \<Rightarrow> old | Some v \<Rightarrow> v)"

text \<open>
  The value a line stores, if any: the state at the last of the positions found.
  \<open>code_val\<close> is what the source stores for loop index \<open>ch\<close> (line \<open>ch + 1\<close>) at strobe
  \<open>s\<close>, \<open>window_val\<close> what the specification stores for the same line from a window.
\<close>

definition last_state :: "int list \<Rightarrow> nat list \<Rightarrow> int option" where
  "last_state e_state idx = (if idx \<noteq> [] then Some (e_state ! last idx) else None)"

definition code_val :: "int list \<Rightarrow> int list \<Rightarrow> nat \<Rightarrow> nat \<Rightarrow> int option" where
  "code_val e_channel e_state s ch = last_state e_state (line_idx e_channel s (int ch + 1))"

definition window_val :: "int list \<Rightarrow> int list \<Rightarrow> nat list \<Rightarrow> nat \<Rightarrow> int option" where
  "window_val e_channel e_state window ch =
     last_state e_state (filter (\<lambda>i. e_channel ! i = int ch + 1) window)"

text \<open>
  A register that already holds, for every data line with a transition before position
  \<open>p\<close>, the state of the last such transition.
\<close>

definition carried :: "int list \<Rightarrow> int list \<Rightarrow> nat \<Rightarrow> int list \<Rightarrow> bool" where
  "carried e_channel e_state p reg =
     (\<forall>c\<in>set [0..<7]. entry_after (code_val e_channel e_state p) c (reg ! (7 - c)) = reg ! (7 - c))"

text \<open>A register whose entries are bits.\<close>

definition binary_register :: "int list \<Rightarrow> bool" where
  "binary_register reg = list_all (\<lambda>x. x = 0 \<or> x = 1) reg"
section \<open>Named messages and example inputs\<close>

subsection \<open>The event stream of the specification's end-to-end scenario\<close>

text \<open>The events \<open>(channel, state, timestamp)\<close> = (8,1,5), (1,1,5), (8,1,15), (2,1,12).\<close>

definition end_to_end_events :: "event list" where
  "end_to_end_events =
     [\<lparr>channel = 8, state = 1, timestamp = 5\<rparr>, \<lparr>channel = 1, state = 1, timestamp = 5\<rparr>,
      \<lparr>channel = 8, state = 1, timestamp = 15\<rparr>, \<lparr>channel = 2, state = 1, timestamp = 12\<rparr>]"

subsection \<open>The messages of \<^verbatim>\<open>check_strobes\<close>, named\<close>

definition strobe_count_warning :: log_call where
  "strobe_count_warning = (''Warning, Strobe and codes number do not match'', [])"

definition code_count_warning :: log_call where
  "code_count_warning = (''Warning, ML and OE code numbers do not match'', [])"

definition codes_differ_warning :: log_call where
  "codes_differ_warning = (''Warning, ML and OE codes are different'', [])"

definition codes_same_message :: log_call where
  "codes_same_message = (''ML and OE codes are the same'', [])"

subsection \<open>Behavioural records for the examples\<close>

text \<open>
  A record with one trial between its first and last member; the trial's code numbers
  are the given row.
\<close>

definition one_trial_bhv :: "int list \<Rightarrow> bhv" where
  "one_trial_bhv codes =
     [(''MLConfig'', \<lparr>CodeNumbers = [], Block = []\<rparr>),
      (''Trial1'', \<lparr>CodeNumbers = [codes], Block = [[1]]\<rparr>),
      (''TrialRecord'', \<lparr>CodeNumbers = [], Block = []\<rparr>)]"

subsection \<open>Recordings for the examples\<close>

text \<open>
  A recording of \<open>n\<close> trials with start code 1 and end code 2. Trial \<open>k\<close> (from 0) raises
  line 1 and strobes at timestamp \<open>10 + 10 * k\<close>, then lowers line 1, raises line 2 and
  strobes at \<open>15 + 10 * k\<close>, then lowers line 2; each strobe line pulse is switched off
  one sample later.
\<close>

fun trial_events :: "nat \<Rightarrow> nat \<Rightarrow> event list" where
  "trial_events k 0 = []"
| "trial_events k (Suc n) =
     [\<lparr>channel = 1, state = 1, timestamp = 9 + 10 * int k\<rparr>,
      \<lparr>channel = 8, state = 1, timestamp = 10 + 10 * int k\<rparr>,
      \<lparr>channel = 8, state = 0, timestamp = 11 + 10 * int k\<rparr>,
      \<lparr>channel = 1, state = 0, timestamp = 14 + 10 * int k\<rparr>,
      \<lparr>channel = 2, state = 1, timestamp = 14 + 10 * int k\<rparr>,
      \<lparr>channel = 8, state = 1, timestamp = 15 + 10 * int k\<rparr>,
      \<lparr>channel = 8, state = 0, timestamp = 16 + 10 * int k\<rparr>,
      \<lparr>channel = 2, state = 0, timestamp = 19 + 10 * int k\<rparr>]
     @ trial_events (Suc k) n"

text \<open>A record whose trials carry the given block labels and the codes 1, 2.\<close>

definition labelled_bhv :: "int list \<Rightarrow> bhv" where
  "labelled_bhv labels =
     (''MLConfig'', \<lparr>CodeNumbers = [], Block = []\<rparr>) #
     map (\<lambda>(k, l). (''Trial'' @ str_nat (Suc k), \<lparr>CodeNumbers = [[1, 2]], Block = [[l]]\<rparr>))
       (enumerate 0 labels) @
     [(''TrialRecord'', \<lparr>CodeNumbers = [], Block = []\<rparr>)]"

text \<open>
  A recording of two trials whose second start word is miscoded: the second trial raises
  line 3 instead of line 1, so the words are 1, 2, 4, 2.
\<close>

definition miscoded_events :: "event list" where
  "miscoded_events =
     trial_events 0 1 @
     [\<lparr>channel = 3, state = 1, timestamp = 19\<rparr>,
      \<lparr>channel = 8, state = 1, timestamp = 20\<rparr>,
      \<lparr>channel = 8, state = 0, timestamp = 21\<rparr>,
      \<lparr>channel = 3, state = 0, timestamp = 24\<rparr>,
      \<lparr>channel = 2, state = 1, timestamp = 24\<rparr>,
      \<lparr>channel = 8, state = 1, timestamp = 25\<rparr>,
      \<lparr>channel = 8, state = 0, timestamp = 26\<rparr>,
      \<lparr>channel = 2, state = 0, timestamp = 29\<rparr>]"

section \<open>Properties of the decoder\<close>

subsection \<open>Stores at distinct register positions\<close>

lemma length_fold_put: "length (fold (put_entry pos val) cs reg) = length reg"
  by (induction cs arbitrary: reg) (auto simp: put_entry_def split: option.splits)

lemma fold_put_nth_out: "k \<notin> pos ` set cs \<Longrightarrow> fold (put_entry pos val) cs reg ! k = reg ! k"
  by (induction cs arbitrary: reg) (auto simp: put_entry_def split: option.splits)

lemma fold_put_nth_in:
  "distinct (map pos cs) \<Longrightarrow> c \<in> set cs \<Longrightarrow> pos c < length reg \<Longrightarrow>
   fold (put_entry pos val) cs reg ! pos c = entry_after val c (reg ! pos c)"
proof (induction cs arbitrary: reg)
  case Nil
  then show ?case by simp
next
  case (Cons a cs)
  show ?case
  proof (cases "c = a")
    case True
    have "pos a \<notin> pos ` set cs" using Cons.prems(1) by simp
    then have "fold (put_entry pos val) cs (put_entry pos val a reg) ! pos a = put_entry pos val a reg ! pos a"
      by (rule fold_put_nth_out)
    moreover have "put_entry pos val a reg ! pos a = entry_after val a (reg ! pos a)"
      using Cons.prems(3) True by (simp add: put_entry_def entry_after_def split: option.splits)
    ultimately show ?thesis using True by simp
  next
    case False
    then have c: "c \<in> set cs" using Cons.prems(2) by simp
    have d: "distinct (map pos cs)" using Cons.prems(1) by simp
    have ne: "pos a \<noteq> pos c" using Cons.prems(1) c by auto
    have l: "pos c < length (put_entry pos val a reg)"
      using Cons.prems(3) by (simp add: put_entry_def split: option.splits)
    have "fold (put_entry pos val) cs (put_entry pos val a reg) ! pos c
            = entry_after val c (put_entry pos val a reg ! pos c)"
      by (rule Cons.IH [OF d c l])
    also have "put_entry pos val a reg ! pos c = reg ! pos c"
      using ne by (simp add: put_entry_def split: option.splits)
    finally show ?thesis by simp
  qed
qed

lemma fold_put_eq:
  "distinct (map pos cs) \<Longrightarrow> \<forall>c\<in>set cs. pos c < length reg \<Longrightarrow>
   \<forall>c\<in>set cs. entry_after val1 c (reg ! pos c) = entry_after val2 c (reg ! pos c) \<Longrightarrow>
   fold (put_entry pos val1) cs reg = fold (put_entry pos val2) cs reg"
proof (induction cs arbitrary: reg)
  case Nil
  then show ?case by simp
next
  case (Cons a cs)
  have same: "put_entry pos val1 a reg = put_entry pos val2 a reg"
    using Cons.prems(2,3)
    by (auto simp: put_entry_def entry_after_def split: option.splits)
  have d: "distinct (map pos cs)" using Cons.prems(1) by simp
  have l: "\<forall>c\<in>set cs. pos c < length (put_entry pos val1 a reg)"
    using Cons.prems(2) by (simp add: put_entry_def split: option.splits)
  have "\<forall>c\<in>set cs. pos a \<noteq> pos c" using Cons.prems(1) by auto
  then have "\<forall>c\<in>set cs. put_entry pos val1 a reg ! pos c = reg ! pos c"
    by (simp add: put_entry_def split: option.splits)
  then have e: "\<forall>c\<in>set cs. entry_after val1 c (put_entry pos val1 a reg ! pos c)
                 = entry_after val2 c (put_entry pos val1 a reg ! pos c)"
    using Cons.prems(3) by simp
  show ?case using Cons.IH [OF d l e] same by simp
qed

subsection \<open>The source's loops in closed form\<close>

lemma np_where_slice0: "np_where_eq (slice e_channel 0 s) v = line_idx e_channel s v"
proof -
  have "filter (\<lambda>i. take s e_channel ! i = v) [0..<min (length e_channel) s]
          = filter (\<lambda>i. e_channel ! i = v) [0..<min (length e_channel) s]"
    by (rule filter_cong) auto
  then show ?thesis
    by (simp add: np_where_eq_def slice_def line_idx_def min.commute)
qed

lemma last_line_idx_less:
  "line_idx e_channel s v \<noteq> [] \<Longrightarrow> last (line_idx e_channel s v) < length e_channel"
proof -
  assume ne: "line_idx e_channel s v \<noteq> []"
  then have "last (line_idx e_channel s v) \<in> set (line_idx e_channel s v)"
    by (rule last_in_set)
  then show ?thesis by (simp add: line_idx_def)
qed

lemma update_line0:
  assumes "length e_channel \<le> length e_state"
  shows "update_line 0 s e_channel e_state reg ch
           = Inr (put_entry (\<lambda>ch. 7 - ch) (code_val e_channel e_state s) ch reg)"
proof (cases "line_idx e_channel s (int ch + 1) = []")
  case True
  then show ?thesis
    by (simp add: update_line_def np_where_slice0 put_entry_def code_val_def last_state_def)
next
  case False
  then have "last (line_idx e_channel s (int ch + 1)) < length e_state"
    using last_line_idx_less [OF False] assms by simp
  then show ?thesis using False
    by (simp add: update_line_def np_where_slice0 put_entry_def code_val_def last_state_def)
qed

lemma scan_lines0:
  assumes "length e_channel \<le> length e_state"
  shows "scan_lines 0 s e_channel e_state reg chs
           = Inr (fold (put_entry (\<lambda>ch. 7 - ch) (code_val e_channel e_state s)) chs reg)"
  by (induction chs arbitrary: reg) (simp_all add: update_line0 [OF assms])

lemma spec_set_bit_put:
  "spec_set_bit e_channel e_state window (Suc ch) reg
     = put_entry (\<lambda>ch. 7 - ch) (window_val e_channel e_state window) ch reg"
  by (simp add: spec_set_bit_def put_entry_def window_val_def last_state_def Let_def add.commute)

lemma upt_1_8: "[1..<8] = map Suc [0..<7]"
  by (simp add: map_Suc_upt)

lemma spec_fold_put:
  "fold (spec_set_bit e_channel e_state window) [1..<8] reg
     = fold (put_entry (\<lambda>ch. 7 - ch) (window_val e_channel e_state window)) [0..<7] reg"
proof -
  have "spec_set_bit e_channel e_state window \<circ> Suc
          = put_entry (\<lambda>ch. 7 - ch) (window_val e_channel e_state window)"
    by (intro ext) (simp add: spec_set_bit_put)
  then show ?thesis
    by (simp only: upt_1_8 fold_map)
qed

lemma distinct_pos: "distinct (map (\<lambda>ch. 7 - ch) [0..<7::nat])"
  by (auto simp: distinct_map inj_on_def)

subsection \<open>Reading a register of bits\<close>

lemma str_int_bits: "str_int 0 = ''0''" "str_int 1 = ''1''"
  by code_simp+

lemma parse_bits_binary:
  "binary_register reg \<Longrightarrow>
   parse_bits acc (concat (map str_int reg)) = Inr (foldl (\<lambda>acc bit. 2 * acc + bit) acc reg)"
  by (induction reg arbitrary: acc) (auto simp: binary_register_def str_int_bits)

lemma word_of_register_binary:
  assumes "binary_register reg" "reg \<noteq> []"
  shows "word_of_register reg = Inr (spec_read_word reg)"
proof -
  obtain x xs where reg: "reg = x # xs" using assms(2) by (cases reg) auto
  have "x = 0 \<or> x = 1" using assms(1) by (simp add: reg binary_register_def)
  then have "concat (map str_int reg) \<noteq> []"
    by (auto simp: reg str_int_bits)
  then show ?thesis
    by (simp add: word_of_register_def int_base2_def spec_read_word_def parse_bits_binary [OF assms(1)])
qed

lemma binary_fold_put:
  "binary_register reg \<Longrightarrow> (\<And>c v. val c = Some v \<Longrightarrow> v = 0 \<or> v = 1) \<Longrightarrow>
   binary_register (fold (put_entry pos val) cs reg)"
proof (induction cs arbitrary: reg)
  case Nil
  then show ?case by simp
next
  case (Cons a cs)
  have "binary_register (put_entry pos val a reg)"
  proof (cases "val a")
    case None
    then show ?thesis using Cons.prems(1) by (simp add: put_entry_def)
  next
    case (Some v)
    then have "v = 0 \<or> v = 1" by (rule Cons.prems(2))
    moreover have "set (reg[pos a := v]) \<subseteq> insert v (set reg)"
      by (rule set_update_subset_insert)
    ultimately show ?thesis using Cons.prems(1) Some
      by (auto simp: put_entry_def binary_register_def list_all_iff)
  qed
  then show ?case using Cons.IH Cons.prems(2) by simp
qed

lemma code_val_binary:
  assumes "binary_states e_state" "length e_channel \<le> length e_state"
    and "code_val e_channel e_state s ch = Some v"
  shows "v = 0 \<or> v = 1"
proof -
  have ne: "line_idx e_channel s (int ch + 1) \<noteq> []"
    and v: "v = e_state ! last (line_idx e_channel s (int ch + 1))"
    using assms(3) by (auto simp: code_val_def last_state_def split: if_splits)
  have "last (line_idx e_channel s (int ch + 1)) < length e_state"
    using last_line_idx_less [OF ne] assms(2) by simp
  then have "v \<in> set e_state" unfolding v by (rule nth_mem)
  then show ?thesis using assms(1) by (auto simp: binary_states_def list_all_iff)
qed

subsection \<open>Scanning from position 0 against scanning the window\<close>

lemma line_idx_split:
  assumes "p \<le> s" "p < length e_channel \<Longrightarrow> e_channel ! p \<noteq> v"
  shows "line_idx e_channel s v
           = line_idx e_channel p v @ filter (\<lambda>i. e_channel ! i = v) [Suc p..<min s (length e_channel)]"
proof (cases "p < min s (length e_channel)")
  case True
  then have "[0..<min s (length e_channel)] = [0..<p] @ [p] @ [Suc p..<min s (length e_channel)]"
    by (metis append_Cons append_Nil le_add_diff_inverse less_imp_le upt_add_eq_append upt_conv_Cons zero_le)
  moreover have "min p (length e_channel) = p" using True by simp
  moreover have "e_channel ! p \<noteq> v" using True assms(2) by simp
  ultimately show ?thesis by (simp add: line_idx_def)
next
  case False
  then have "min s (length e_channel) = min p (length e_channel)" using assms(1) by auto
  moreover have "min s (length e_channel) \<le> Suc p" using False by linarith
  then have "[Suc p..<min s (length e_channel)] = []" by simp
  ultimately show ?thesis by (simp add: line_idx_def)
qed

lemma entry_after_idem: "entry_after val c (entry_after val c x) = entry_after val c x"
  by (simp add: entry_after_def split: option.splits)

lemma carried_after_scan:
  assumes "length reg = 8"
  shows "carried e_channel e_state s
           (fold (put_entry (\<lambda>ch. 7 - ch) (code_val e_channel e_state s)) [0..<7] reg)"
  unfolding carried_def
proof
  fix c :: nat
  assume c: "c \<in> set [0..<7]"
  have "7 - c < length reg" using assms by simp
  then have "fold (put_entry (\<lambda>ch. 7 - ch) (code_val e_channel e_state s)) [0..<7] reg ! (7 - c)
          = entry_after (code_val e_channel e_state s) c (reg ! (7 - c))"
    using fold_put_nth_in [OF distinct_pos c, of reg] by simp
  then show "entry_after (code_val e_channel e_state s) c
          (fold (put_entry (\<lambda>ch. 7 - ch) (code_val e_channel e_state s)) [0..<7] reg ! (7 - c))
        = fold (put_entry (\<lambda>ch. 7 - ch) (code_val e_channel e_state s)) [0..<7] reg ! (7 - c)"
    by (simp add: entry_after_idem)
qed

lemma window_first: "window_val e_channel e_state (spec_window (length e_channel) None s)
                       = code_val e_channel e_state s"
  by (intro ext) (simp add: window_val_def code_val_def spec_window_def line_idx_def)

lemma window_next:
  assumes "p \<le> s" "p < length e_channel \<Longrightarrow> \<not> is_data_line (e_channel ! p)"
    and "carried e_channel e_state p reg" "c \<in> set [0..<7]"
  shows "entry_after (code_val e_channel e_state s) c (reg ! (7 - c))
          = entry_after (window_val e_channel e_state (spec_window (length e_channel) (Some p) s)) c (reg ! (7 - c))"
proof -
  let ?v = "int c + 1"
  let ?W = "filter (\<lambda>i. e_channel ! i = ?v) [Suc p..<min s (length e_channel)]"
  have "is_data_line ?v" using assms(4) by (simp add: is_data_line_def)
  then have "p < length e_channel \<Longrightarrow> e_channel ! p \<noteq> ?v" using assms(2) by auto
  then have split: "line_idx e_channel s ?v = line_idx e_channel p ?v @ ?W"
    by (rule line_idx_split [OF assms(1)])
  have keep: "entry_after (code_val e_channel e_state p) c (reg ! (7 - c)) = reg ! (7 - c)"
    using assms(3,4) by (simp add: carried_def)
  show ?thesis
  proof (cases "?W = []")
    case True
    then have "code_val e_channel e_state s c = code_val e_channel e_state p c"
      by (simp add: code_val_def split)
    moreover have "window_val e_channel e_state (spec_window (length e_channel) (Some p) s) c = None"
      using True by (simp add: window_val_def spec_window_def last_state_def)
    ultimately show ?thesis using keep by (simp add: entry_after_def)
  next
    case False
    then show ?thesis
      by (simp add: entry_after_def code_val_def window_val_def spec_window_def last_state_def split)
  qed
qed

lemma scan_step:
  fixes s :: nat
  assumes len: "length e_state = length e_channel" and bin: "binary_states e_state"
    and reg: "length reg = 8" "binary_register reg"
  defines "reg' \<equiv> fold (put_entry (\<lambda>ch. 7 - ch) (code_val e_channel e_state s)) [0..<7] reg"
  shows "scan_lines 0 s e_channel e_state reg [0..<7] = Inr reg'"
    and "length reg' = 8" and "binary_register reg'"
    and "word_of_register reg' = Inr (spec_read_word reg')"
    and "carried e_channel e_state s reg'"
proof -
  have le: "length e_channel \<le> length e_state" using len by simp
  show "scan_lines 0 s e_channel e_state reg [0..<7] = Inr reg'"
    unfolding reg'_def by (rule scan_lines0 [OF le])
  show l: "length reg' = 8" by (simp add: reg'_def length_fold_put reg(1))
  show b: "binary_register reg'"
    unfolding reg'_def using reg(2) code_val_binary [OF bin le] by (rule binary_fold_put)
  have "reg' \<noteq> []" using l by auto
  then show "word_of_register reg' = Inr (spec_read_word reg')"
    using b by (simp add: word_of_register_binary)
  show "carried e_channel e_state s reg'"
    unfolding reg'_def by (rule carried_after_scan [OF reg(1)])
qed

lemma strobe_loop_spec_next:
  assumes len: "length e_state = length e_channel" and bin: "binary_states e_state"
  shows "sorted (p # strobes) \<Longrightarrow>
         \<forall>s\<in>set (p # strobes). s < length e_channel \<longrightarrow> \<not> is_data_line (e_channel ! s) \<Longrightarrow>
         length reg = 8 \<Longrightarrow> binary_register reg \<Longrightarrow> carried e_channel e_state p reg \<Longrightarrow>
         strobe_loop 0 e_channel e_state reg strobes
           = Inr (spec_decode_from e_channel e_state (Some p) reg strobes)"
proof (induction strobes arbitrary: p reg)
  case Nil
  then show ?case by simp
next
  case (Cons s rest)
  let ?code = "fold (put_entry (\<lambda>ch. 7 - ch) (code_val e_channel e_state s)) [0..<7] reg"
  let ?spec = "fold (spec_set_bit e_channel e_state (spec_window (length e_channel) (Some p) s)) [1..<8] reg"
  note step = scan_step [OF len bin Cons.prems(3,4), of s]
  have ps: "p \<le> s" using Cons.prems(1) by simp
  have pd: "p < length e_channel \<Longrightarrow> \<not> is_data_line (e_channel ! p)"
    using Cons.prems(2) by simp
  have "\<forall>c\<in>set [0..<7]. entry_after (code_val e_channel e_state s) c (reg ! (7 - c))
          = entry_after (window_val e_channel e_state (spec_window (length e_channel) (Some p) s)) c (reg ! (7 - c))"
    using window_next [OF ps pd Cons.prems(5)] by blast
  moreover have "\<forall>c\<in>set [0..<7]. 7 - c < length reg" using Cons.prems(3) by auto
  ultimately have same: "?code = ?spec"
    unfolding spec_fold_put using distinct_pos by (intro fold_put_eq) auto
  have "sorted (s # rest)" using Cons.prems(1) by simp
  moreover have "\<forall>t\<in>set (s # rest). t < length e_channel \<longrightarrow> \<not> is_data_line (e_channel ! t)"
    using Cons.prems(2) by simp
  ultimately have "strobe_loop 0 e_channel e_state ?code rest
      = Inr (spec_decode_from e_channel e_state (Some s) ?code rest)"
    using step(2,3,5) by (rule Cons.IH)
  then show ?case
    using step(1,4) same by (simp add: Let_def)
qed

lemma strobe_loop_spec_first:
  assumes len: "length e_state = length e_channel" and bin: "binary_states e_state"
    and srt: "sorted strobes"
    and str: "\<forall>s\<in>set strobes. s < length e_channel \<longrightarrow> \<not> is_data_line (e_channel ! s)"
    and reg: "length reg = 8" "binary_register reg"
  shows "strobe_loop 0 e_channel e_state reg strobes
           = Inr (spec_decode_from e_channel e_state None reg strobes)"
proof (cases strobes)
  case Nil
  then show ?thesis by simp
next
  case (Cons s rest)
  let ?code = "fold (put_entry (\<lambda>ch. 7 - ch) (code_val e_channel e_state s)) [0..<7] reg"
  let ?spec = "fold (spec_set_bit e_channel e_state (spec_window (length e_channel) None s)) [1..<8] reg"
  note step = scan_step [OF len bin reg, of s]
  have same: "?code = ?spec"
    by (simp only: spec_fold_put window_first)
  have "strobe_loop 0 e_channel e_state ?code rest
      = Inr (spec_decode_from e_channel e_state (Some s) ?code rest)"
    using srt str step(2,3,5) unfolding Cons by (intro strobe_loop_spec_next [OF len bin]) 
  then show ?thesis
    using step(1,4) same by (simp add: Cons Let_def)
qed

lemma binary_register_zeros: "binary_register (replicate 8 0)"
  by (simp add: binary_register_def list_all_iff)

section \<open>The claims about the decoder\<close>

text \<open>
  C1. For every well-formed event stream (a channel and a state array of one length, the
  states 0 or 1) and every ascending sequence of strobe indices (an index inside the
  stream never being that of a data-line event: a strobe is an event on channel 8),
  \<open>reconstruct_8bits_words\<close> returns, without raising, one word per strobe, and the words
  are those of the specification's algorithm: a register of eight zeros; for each strobe
  in order and each data line 1..7, bit \<open>7 - (ch - 1)\<close> set to the state of the last
  transition on that line in the window between the previous strobe (exclusive; index 0
  for the first strobe) and the strobe (exclusive), left as it is when the window has
  none; the register then read most significant bit first. The source scans from index
  0 for every strobe (\<open>idx_old\<close> stays 0), and still yields the same words.
\<close>

theorem reconstruct_8bits_words_spec:
  assumes "length e_state = length e_channel" and "binary_states e_state"
    and "sorted strobes"
    and "\<forall>s\<in>set strobes. s < length e_channel \<longrightarrow> \<not> is_data_line (e_channel ! s)"
  shows "reconstruct_8bits_words strobes e_channel e_state = Inr (spec_decode e_channel e_state strobes)
         \<and> length (spec_decode e_channel e_state strobes) = length strobes"
proof -
  have "length (spec_decode_from e_channel e_state prev reg strobes) = length strobes" for prev reg
    by (induction strobes arbitrary: prev reg) (simp_all add: Let_def)
  then show ?thesis
    using strobe_loop_spec_first [OF assms, of "replicate 8 0"] binary_register_zeros
    by (simp add: reconstruct_8bits_words_def spec_decode_def)
qed

theorem reconstruct_8bits_words_spec_witness:
  "reconstruct_8bits_words [1, 4] [1, 8, 2, 1, 8] [1, 1, 1, 0, 1]
     = Inr (spec_decode [1, 8, 2, 1, 8] [1, 1, 1, 0, 1] [1, 4])
   \<and> spec_decode [1, 8, 2, 1, 8] [1, 1, 1, 0, 1] [1, 4] = [1, 2]
   \<and> length (spec_decode [1, 8, 2, 1, 8] [1, 1, 1, 0, 1] [1, 4]) = length [1, 4 :: nat]"
proof -
  have len: "length [1, 1, 1, 0, 1 :: int] = length [1, 8, 2, 1, 8 :: int]" by simp
  have bin: "binary_states [1, 1, 1, 0, 1]" by (simp add: binary_states_def)
  have srt: "sorted [1, 4 :: nat]" by simp
  have off: "\<forall>s\<in>set [1, 4 :: nat]. s < length [1, 8, 2, 1, 8 :: int]
               \<longrightarrow> \<not> is_data_line ([1, 8, 2, 1, 8] ! s)"
    by (simp add: is_data_line_def)
  have val: "spec_decode [1, 8, 2, 1, 8] [1, 1, 1, 0, 1] [1, 4] = [1, 2]" by code_simp
  show ?thesis
    using reconstruct_8bits_words_spec [OF len bin srt off] val by simp
qed

subsection \<open>The range of the words\<close>

lemma foldl_bits_bound:
  "binary_register reg \<Longrightarrow> 0 \<le> acc \<Longrightarrow>
   0 \<le> foldl (\<lambda>acc bit. 2 * acc + bit) acc reg
   \<and> foldl (\<lambda>acc bit. 2 * acc + bit) acc reg < (acc + 1) * 2 ^ length reg"
proof (induction reg arbitrary: acc)
  case Nil
  then show ?case by simp
next
  case (Cons b reg)
  have b: "b = 0 \<or> b = 1" and r: "binary_register reg"
    using Cons.prems(1) by (simp_all add: binary_register_def)
  have nn: "0 \<le> 2 * acc + b" using b Cons.prems(2) by auto
  have ih: "0 \<le> foldl (\<lambda>acc bit. 2 * acc + bit) (2 * acc + b) reg"
    "foldl (\<lambda>acc bit. 2 * acc + bit) (2 * acc + b) reg < (2 * acc + b + 1) * 2 ^ length reg"
    using Cons.IH [OF r nn] by simp_all
  have "(2 * acc + b + 1) * 2 ^ length reg \<le> (2 * acc + 2) * 2 ^ length reg"
    using b by (intro mult_right_mono) auto
  also have "\<dots> = (acc + 1) * 2 ^ length (b # reg)" by (simp add: algebra_simps)
  finally have "foldl (\<lambda>acc bit. 2 * acc + bit) (2 * acc + b) reg < (acc + 1) * 2 ^ length (b # reg)"
    using ih(2) by linarith
  then show ?case using ih(1) by simp
qed

lemma spec_read_word_range:
  assumes "binary_register reg" "length reg = 8" "reg ! 0 = 0"
  shows "0 \<le> spec_read_word reg \<and> spec_read_word reg \<le> 127"
proof -
  obtain x xs where reg: "reg = x # xs" using assms(2) by (cases reg) auto
  have x: "x = 0" using assms(3) by (simp add: reg)
  have xs: "binary_register xs" "length xs = 7"
    using assms(1,2) by (simp_all add: reg binary_register_def)
  have "spec_read_word reg = foldl (\<lambda>acc bit. 2 * acc + bit) 0 xs"
    by (simp add: spec_read_word_def reg x)
  then show ?thesis using foldl_bits_bound [OF xs(1), of 0] xs(2) by simp
qed

lemma scan_keeps_position0:
  "fold (put_entry (\<lambda>ch. 7 - ch) val) [0..<7] reg ! 0 = reg ! 0"
  by (rule fold_put_nth_out) auto

lemma strobe_loop_range:
  assumes len: "length e_state = length e_channel" and bin: "binary_states e_state"
  shows "length reg = 8 \<Longrightarrow> binary_register reg \<Longrightarrow> reg ! 0 = 0 \<Longrightarrow>
         \<exists>ws. strobe_loop 0 e_channel e_state reg strobes = Inr ws
              \<and> length ws = length strobes \<and> list_all (\<lambda>w. 0 \<le> w \<and> w \<le> 127) ws"
proof (induction strobes arbitrary: reg)
  case Nil
  then show ?case by simp
next
  case (Cons s rest)
  let ?reg = "fold (put_entry (\<lambda>ch. 7 - ch) (code_val e_channel e_state s)) [0..<7] reg"
  note step = scan_step [OF len bin Cons.prems(1,2), of s]
  have z: "?reg ! 0 = 0" using Cons.prems(3) by (simp add: scan_keeps_position0)
  obtain ws where ws: "strobe_loop 0 e_channel e_state ?reg rest = Inr ws"
    "length ws = length rest" "list_all (\<lambda>w. 0 \<le> w \<and> w \<le> 127) ws"
    using Cons.IH [OF step(2,3) z] by blast
  have "0 \<le> spec_read_word ?reg \<and> spec_read_word ?reg \<le> 127"
    using step(3,2) z by (rule spec_read_word_range)
  then show ?case using step(1,4) ws by simp
qed

lemma update_line_position0:
  "update_line idx_old s e_channel e_state reg ch = Inr reg' \<Longrightarrow> ch < 7 \<Longrightarrow> reg' ! 0 = reg ! 0"
  by (auto simp: update_line_def Let_def split: if_splits)

lemma scan_lines_position0:
  "scan_lines idx_old s e_channel e_state reg chs = Inr reg' \<Longrightarrow> \<forall>ch\<in>set chs. ch < 7 \<Longrightarrow>
   reg' ! 0 = reg ! 0"
proof (induction chs arbitrary: reg)
  case Nil
  then show ?case by simp
next
  case (Cons ch chs)
  then show ?case
    by (auto split: sum.splits dest: update_line_position0)
qed

text \<open>
  C9. Register position 0, the most significant bit, is never written: the loop over the
  lines leaves it as it was, whatever the stream, the strobe and the register. So for
  every well-formed event stream (columns of one length, states 0 or 1) and every strobe
  sequence, \<open>reconstruct_8bits_words\<close> returns one word per strobe and every word lies
  in the range 0..127.
\<close>

theorem decoded_words_in_0_127:
  assumes "length e_state = length e_channel" and "binary_states e_state"
  shows "(\<exists>ws. reconstruct_8bits_words strobes e_channel e_state = Inr ws
              \<and> length ws = length strobes \<and> (\<forall>w\<in>set ws. 0 \<le> w \<and> w \<le> 127))
         \<and> (\<forall>idx_old s reg reg'. scan_lines idx_old s e_channel e_state reg [0..<7] = Inr reg'
                \<longrightarrow> reg' ! 0 = reg ! 0)"
proof -
  have "(replicate 8 (0::int)) ! 0 = 0" by simp
  then have "\<exists>ws. strobe_loop 0 e_channel e_state (replicate 8 0) strobes = Inr ws
      \<and> length ws = length strobes \<and> list_all (\<lambda>w. 0 \<le> w \<and> w \<le> 127) ws"
    using binary_register_zeros by (intro strobe_loop_range [OF assms]) simp_all
  moreover have "reg' ! 0 = reg ! 0"
    if "scan_lines idx_old s e_channel e_state reg [0..<7] = Inr reg'" for idx_old s reg reg'
    using that by (rule scan_lines_position0) simp
  ultimately show ?thesis
    by (auto simp: reconstruct_8bits_words_def list_all_iff)
qed

theorem decoded_words_in_0_127_witness:
  "reconstruct_8bits_words [7, 8] [1, 2, 3, 4, 5, 6, 7, 8, 8] [1, 1, 1, 1, 1, 1, 1, 1, 1]
     = Inr [127, 127]
   \<and> (\<exists>ws. reconstruct_8bits_words [7, 8] [1, 2, 3, 4, 5, 6, 7, 8, 8] [1, 1, 1, 1, 1, 1, 1, 1, 1] = Inr ws
          \<and> length ws = length [7, 8 :: nat] \<and> (\<forall>w\<in>set ws. 0 \<le> w \<and> w \<le> 127))"
proof -
  have len: "length [1, 1, 1, 1, 1, 1, 1, 1, 1 :: int] = length [1, 2, 3, 4, 5, 6, 7, 8, 8 :: int]"
    by simp
  have bin: "binary_states [1, 1, 1, 1, 1, 1, 1, 1, 1]" by (simp add: binary_states_def)
  have "reconstruct_8bits_words [7, 8] [1, 2, 3, 4, 5, 6, 7, 8, 8] [1, 1, 1, 1, 1, 1, 1, 1, 1]
          = Inr [127, 127]" by code_simp
  then show ?thesis using decoded_words_in_0_127 [OF len bin, of "[7, 8]"] by blast
qed

subsection \<open>Sample and hold\<close>

lemma upt_split: "a \<le> b \<Longrightarrow> [0..<b] = [0..<a] @ [a..<b]"
  using upt_add_eq_append [of 0 a "b - a"] by simp

lemma line_idx_same:
  assumes "s1 \<le> s2"
    and "\<forall>i. s1 \<le> i \<and> i < s2 \<and> i < length e_channel \<longrightarrow> e_channel ! i \<noteq> v"
  shows "line_idx e_channel s2 v = line_idx e_channel s1 v"
proof -
  have "min s1 (length e_channel) \<le> min s2 (length e_channel)" using assms(1) by simp
  then have "[0..<min s2 (length e_channel)]
        = [0..<min s1 (length e_channel)] @ [min s1 (length e_channel)..<min s2 (length e_channel)]"
    by (rule upt_split)
  moreover have "e_channel ! i \<noteq> v"
    if "i \<in> set [min s1 (length e_channel)..<min s2 (length e_channel)]" for i
  proof -
    have "s1 \<le> i \<and> i < s2 \<and> i < length e_channel" using that by auto
    then show ?thesis using assms(2) by blast
  qed
  then have "filter (\<lambda>i. e_channel ! i = v) [min s1 (length e_channel)..<min s2 (length e_channel)] = []"
    by (simp add: filter_empty_conv)
  ultimately show ?thesis by (simp add: line_idx_def)
qed

lemma fold_put_none: "fold (put_entry pos (\<lambda>_. None)) cs reg = reg"
  by (induction cs) (simp_all add: put_entry_def)

lemma scan_again:
  assumes reg: "length reg = 8" and car: "carried e_channel e_state s1 reg"
    and le: "s1 \<le> s2"
    and quiet: "\<forall>i. s1 \<le> i \<and> i < s2 \<and> i < length e_channel \<longrightarrow> \<not> is_data_line (e_channel ! i)"
  shows "fold (put_entry (\<lambda>ch. 7 - ch) (code_val e_channel e_state s2)) [0..<7] reg = reg"
proof -
  have "entry_after (code_val e_channel e_state s2) c (reg ! (7 - c))
          = entry_after (\<lambda>_. None) c (reg ! (7 - c))" if c: "c \<in> set [0..<7]" for c
  proof -
    have "is_data_line (int c + 1)" using c by (simp add: is_data_line_def)
    then have "\<forall>i. s1 \<le> i \<and> i < s2 \<and> i < length e_channel \<longrightarrow> e_channel ! i \<noteq> int c + 1"
      using quiet by auto
    then have "line_idx e_channel s2 (int c + 1) = line_idx e_channel s1 (int c + 1)"
      by (rule line_idx_same [OF le])
    then have "code_val e_channel e_state s2 c = code_val e_channel e_state s1 c"
      by (simp add: code_val_def)
    then show ?thesis using car c by (simp add: carried_def entry_after_def)
  qed
  moreover have "\<forall>c\<in>set [0..<7]. 7 - c < length reg" using reg by auto
  ultimately have "fold (put_entry (\<lambda>ch. 7 - ch) (code_val e_channel e_state s2)) [0..<7] reg
      = fold (put_entry (\<lambda>ch. 7 - ch) (\<lambda>_. None)) [0..<7] reg"
    using distinct_pos by (intro fold_put_eq) auto
  then show ?thesis by (simp add: fold_put_none)
qed

lemma strobe_loop_hold:
  assumes len: "length e_state = length e_channel" and bin: "binary_states e_state"
  shows "length reg = 8 \<Longrightarrow> binary_register reg \<Longrightarrow> Suc k < length strobes \<Longrightarrow>
         strobes ! k \<le> strobes ! Suc k \<Longrightarrow>
         \<forall>i. strobes ! k \<le> i \<and> i < strobes ! Suc k \<and> i < length e_channel
               \<longrightarrow> \<not> is_data_line (e_channel ! i) \<Longrightarrow>
         strobe_loop 0 e_channel e_state reg strobes = Inr ws \<Longrightarrow> ws ! Suc k = ws ! k"
proof (induction strobes arbitrary: reg k ws)
  case Nil
  then show ?case by simp
next
  case (Cons s rest)
  let ?reg = "fold (put_entry (\<lambda>ch. 7 - ch) (code_val e_channel e_state s)) [0..<7] reg"
  note step = scan_step [OF len bin Cons.prems(1,2), of s]
  obtain ws' where ws': "strobe_loop 0 e_channel e_state ?reg rest = Inr ws'"
    and ws: "ws = spec_read_word ?reg # ws'"
    using Cons.prems(6) step(1,4) by (auto split: sum.splits)
  show ?case
  proof (cases k)
    case 0
    then obtain s2 rest2 where rest: "rest = s2 # rest2"
      using Cons.prems(3) by (cases rest) auto
    let ?reg2 = "fold (put_entry (\<lambda>ch. 7 - ch) (code_val e_channel e_state s2)) [0..<7] ?reg"
    note step2 = scan_step [OF len bin step(2,3), of s2]
    have same: "?reg2 = ?reg"
      using step(2,5) Cons.prems(4,5) unfolding 0 rest by (intro scan_again) simp_all
    obtain ws2 where "ws' = spec_read_word ?reg2 # ws2"
      using ws' step2(1,4) unfolding rest by (auto split: sum.splits)
    then show ?thesis using ws same 0 by simp
  next
    case (Suc k')
    have "ws' ! Suc k' = ws' ! k'"
      using step(2,3) Cons.prems(3,4,5) ws' unfolding Suc by (intro Cons.IH) simp_all
    then show ?thesis using ws Suc by simp
  qed
qed

text \<open>
  C2. Sample and hold: for every well-formed event stream and every pair of consecutive
  strobe indices of the sequence (the second not before the first, the first not sitting
  on a data-line event: a strobe is an event on channel 8), if no event on a data line
  1..7 lies at an index strictly between the two, the word decoded for the second strobe
  equals the word decoded for the first.
\<close>

theorem sample_and_hold:
  assumes "length e_state = length e_channel" and "binary_states e_state"
    and "Suc k < length strobes" and "strobes ! k \<le> strobes ! Suc k"
    and "strobes ! k < length e_channel \<longrightarrow> \<not> is_data_line (e_channel ! (strobes ! k))"
    and "\<forall>i. strobes ! k < i \<and> i < strobes ! Suc k \<and> i < length e_channel
               \<longrightarrow> \<not> is_data_line (e_channel ! i)"
  shows "\<exists>ws. reconstruct_8bits_words strobes e_channel e_state = Inr ws
              \<and> length ws = length strobes \<and> ws ! Suc k = ws ! k"
proof -
  obtain ws where ws: "strobe_loop 0 e_channel e_state (replicate 8 0) strobes = Inr ws"
    "length ws = length strobes"
    using strobe_loop_range [OF assms(1,2), of "replicate 8 0" strobes] binary_register_zeros
    by auto
  have "\<forall>i. strobes ! k \<le> i \<and> i < strobes ! Suc k \<and> i < length e_channel
               \<longrightarrow> \<not> is_data_line (e_channel ! i)"
    using assms(5,6) by (metis le_neq_implies_less)
  then have "ws ! Suc k = ws ! k"
    using binary_register_zeros assms(3,4) ws(1)
    by (intro strobe_loop_hold [OF assms(1,2), of "replicate 8 0" k strobes ws]) simp_all
  then show ?thesis using ws by (simp add: reconstruct_8bits_words_def)
qed

theorem sample_and_hold_witness:
  "reconstruct_8bits_words [1, 3, 5] [1, 8, 8, 8, 2, 8] [1, 1, 0, 1, 1, 1] = Inr [1, 1, 3]
   \<and> (\<exists>ws. reconstruct_8bits_words [1, 3, 5] [1, 8, 8, 8, 2, 8] [1, 1, 0, 1, 1, 1] = Inr ws
          \<and> length ws = length [1, 3, 5 :: nat] \<and> ws ! Suc 0 = ws ! 0)"
proof -
  have len: "length [1, 1, 0, 1, 1, 1 :: int] = length [1, 8, 8, 8, 2, 8 :: int]" by simp
  have bin: "binary_states [1, 1, 0, 1, 1, 1]" by (simp add: binary_states_def)
  have k: "Suc 0 < length [1, 3, 5 :: nat]" by simp
  have ord: "[1, 3, 5 :: nat] ! 0 \<le> [1, 3, 5] ! Suc 0" by simp
  have off: "[1, 3, 5 :: nat] ! 0 < length [1, 8, 8, 8, 2, 8 :: int]
               \<longrightarrow> \<not> is_data_line ([1, 8, 8, 8, 2, 8] ! ([1, 3, 5] ! 0))"
    by (simp add: is_data_line_def)
  have quiet: "\<forall>i. [1, 3, 5 :: nat] ! 0 < i \<and> i < [1, 3, 5] ! Suc 0 \<and> i < length [1, 8, 8, 8, 2, 8 :: int]
               \<longrightarrow> \<not> is_data_line ([1, 8, 8, 8, 2, 8] ! i)"
  proof (intro allI impI)
    fix i :: nat
    assume "[1, 3, 5 :: nat] ! 0 < i \<and> i < [1, 3, 5] ! Suc 0 \<and> i < length [1, 8, 8, 8, 2, 8 :: int]"
    then have "i = 2" by simp
    then show "\<not> is_data_line ([1, 8, 8, 8, 2, 8] ! i)" by (simp add: is_data_line_def)
  qed
  have val: "reconstruct_8bits_words [1, 3, 5] [1, 8, 8, 8, 2, 8] [1, 1, 0, 1, 1, 1] = Inr [1, 1, 3]"
    by code_simp
  show ?thesis
    using sample_and_hold [OF len bin k ord off quiet] val by simp
qed

subsection \<open>A single data-line event\<close>

lemma fold_put_single:
  "distinct cs \<Longrightarrow>
   fold (put_entry pos (\<lambda>c. if c = c0 then Some v else None)) cs reg
     = (if c0 \<in> set cs then reg[pos c0 := v] else reg)"
  by (induction cs arbitrary: reg) (auto simp: put_entry_def)

lemma filter_upt_single: "filter (\<lambda>i. i = j) [0..<m] = (if j < m then [j] else [])"
  by (induction m) auto

lemma line_idx_single:
  assumes "j < s" "j < length e_channel" "e_channel ! j = w" "is_data_line w"
    and "\<forall>i<length e_channel. i \<noteq> j \<longrightarrow> \<not> is_data_line (e_channel ! i)"
    and "is_data_line v"
  shows "line_idx e_channel s v = (if v = w then [j] else [])"
proof -
  have "filter (\<lambda>i. e_channel ! i = v) [0..<min s (length e_channel)]
          = filter (\<lambda>i. v = w \<and> i = j) [0..<min s (length e_channel)]"
    using assms(3,4,5,6) by (intro filter_cong) auto
  also have "\<dots> = (if v = w then filter (\<lambda>i. i = j) [0..<min s (length e_channel)] else [])"
    by simp
  finally show ?thesis using assms(1,2) by (simp add: line_idx_def filter_upt_single)
qed

lemma single_bit_word:
  assumes "1 \<le> ch" "ch \<le> 7" "v = 0 \<or> v = 1"
  shows "word_of_register ((replicate 8 0)[7 - (ch - 1) := v]) = Inr (v * 2 ^ (ch - 1))"
proof -
  consider "ch = 1" | "ch = 2" | "ch = 3" | "ch = 4" | "ch = 5" | "ch = 6" | "ch = 7"
    using assms(1,2) by linarith
  then show ?thesis using assms(3)
    by cases (elim disjE; (simp only:)?; code_simp)+
qed

text \<open>
  C5. The bit of data line \<open>ch\<close> (1..7) occupies register position \<open>7 - (ch - 1)\<close>: when
  the only data-line event of a stream is one on line \<open>ch\<close> with state \<open>v\<close> at an index
  before the strobe, the scan of that strobe turns the all-zero register into the
  register with \<open>v\<close> at position \<open>7 - (ch - 1)\<close> and zeros elsewhere, and the word decoded
  is \<open>v * 2 ^ (ch - 1)\<close>. In particular one event with channel 1 and state 1 gives the
  word 1.
\<close>

theorem channel_bit_position:
  assumes "length e_state = length e_channel"
    and "1 \<le> ch" and "ch \<le> 7"
    and "j < s" and "j < length e_channel"
    and "e_channel ! j = int ch" and "e_state ! j = v" and "v = 0 \<or> v = 1"
    and "\<forall>i<length e_channel. i \<noteq> j \<longrightarrow> \<not> is_data_line (e_channel ! i)"
  shows "scan_lines 0 s e_channel e_state (replicate 8 0) [0..<7]
           = Inr ((replicate 8 0)[7 - (ch - 1) := v])
         \<and> reconstruct_8bits_words [s] e_channel e_state = Inr [v * 2 ^ (ch - 1)]
         \<and> (ch = 1 \<and> v = 1 \<longrightarrow> reconstruct_8bits_words [s] e_channel e_state = Inr [1])"
proof -
  have le: "length e_channel \<le> length e_state" using assms(1) by simp
  have w: "is_data_line (int ch)" using assms(2,3) by (simp add: is_data_line_def)
  have "code_val e_channel e_state s c = (if c = ch - 1 then Some v else None)"
    if c: "c \<in> set [0..<7]" for c
  proof -
    have "is_data_line (int c + 1)" using c by (simp add: is_data_line_def)
    then have "line_idx e_channel s (int c + 1) = (if int c + 1 = int ch then [j] else [])"
      using assms(4,5,6,9) w by (intro line_idx_single) simp_all
    moreover have "int c + 1 = int ch \<longleftrightarrow> c = ch - 1" using assms(2) by auto
    ultimately show ?thesis using assms(7) by (simp add: code_val_def last_state_def)
  qed
  then have "\<forall>c\<in>set [0..<7]. put_entry (\<lambda>ch. 7 - ch) (code_val e_channel e_state s) c
      = put_entry (\<lambda>ch. 7 - ch) (\<lambda>c. if c = ch - 1 then Some v else None) c"
    by (auto simp: put_entry_def fun_eq_iff)
  then have "fold (put_entry (\<lambda>ch. 7 - ch) (code_val e_channel e_state s)) [0..<7] (replicate 8 0)
      = fold (put_entry (\<lambda>ch. 7 - ch) (\<lambda>c. if c = ch - 1 then Some v else None)) [0..<7] (replicate 8 0)"
    by (intro fold_cong) auto
  also have "\<dots> = (replicate 8 0)[7 - (ch - 1) := v]"
    using assms(2,3) by (subst fold_put_single) auto
  finally have scan: "scan_lines 0 s e_channel e_state (replicate 8 0) [0..<7]
      = Inr ((replicate 8 0)[7 - (ch - 1) := v])"
    by (simp add: scan_lines0 [OF le])
  have word: "word_of_register ((replicate 8 0)[7 - (ch - 1) := v]) = Inr (v * 2 ^ (ch - 1))"
    using assms(2,3,8) by (rule single_bit_word)
  have "reconstruct_8bits_words [s] e_channel e_state = Inr [v * 2 ^ (ch - 1)]"
    using scan word by (simp add: reconstruct_8bits_words_def)
  then show ?thesis using scan by simp
qed

theorem channel_bit_position_witness:
  "scan_lines 0 1 [1, 8] [1, 1] (replicate 8 0) [0..<7] = Inr [0, 0, 0, 0, 0, 0, 0, 1]
   \<and> reconstruct_8bits_words [1] [1, 8] [1, 1] = Inr [1]"
proof -
  have len: "length [1, 1 :: int] = length [1, 8 :: int]" by simp
  have only: "\<forall>i<length [1, 8 :: int]. i \<noteq> 0 \<longrightarrow> \<not> is_data_line ([1, 8] ! i)"
    by (simp add: is_data_line_def less_Suc_eq)
  have "(replicate 8 (0::int))[7 - (1 - 1) := 1] = [0, 0, 0, 0, 0, 0, 0, 1]" by code_simp
  then show ?thesis
    using channel_bit_position [OF len, of 1 0 1 1, OF _ _ _ _ _ _ _ only] by simp
qed

text \<open>
  C6. For the event stream \<open>[(8,1,5), (1,1,5), (8,1,15), (2,1,12)]\<close> the strobes are the
  events at indices 0 and 2, and the first decoded word is 0: the window of the first
  strobe ends before index 0, so the channel-1 event at index 1, which carries the first
  strobe's timestamp, does not reach the first word (it reaches the second, which is 1).
\<close>

theorem end_to_end_first_word:
  "idx_real_strobes end_to_end_events = [0, 2]
   \<and> map channel end_to_end_events = [8, 1, 8, 2]
   \<and> map timestamp end_to_end_events = [5, 5, 15, 12]
   \<and> slice (map channel end_to_end_events) 0 0 = []
   \<and> reconstruct_8bits_words (idx_real_strobes end_to_end_events)
         (map channel end_to_end_events) (map state end_to_end_events) = Inr [0, 1]"
  by code_simp

section \<open>The claims about the block segmentation\<close>

subsection \<open>\<^verbatim>\<open>np.unique\<close> and the loop over the labels\<close>

lemma distinct_remdups_adj_sorted: "sorted xs \<Longrightarrow> distinct (remdups_adj xs)"
  by (induction xs rule: remdups_adj.induct) auto

lemma np_unique_ascending: "sorted_wrt (<) (np_unique arr)"
  by (simp add: np_unique_def strict_sorted_iff distinct_remdups_adj_sorted)

lemma set_np_unique: "set (np_unique arr) = set arr"
  by (simp add: np_unique_def)

lemma np_where_eq_less: "i \<in> set (np_where_eq arr v) \<Longrightarrow> i < length arr"
  by (simp add: np_where_eq_def)

lemma take_idx_in_range:
  "length blocks \<le> length arr \<Longrightarrow>
   take_idx arr (np_where_eq blocks block) = Inr (map ((!) arr) (np_where_eq blocks block))"
  by (auto simp: take_idx_def list_all_iff dest: np_where_eq_less)

lemma take_idx_result: "take_idx arr idx = Inr r \<Longrightarrow> r = map ((!) arr) idx"
  by (simp add: take_idx_def split: if_splits)

lemma block_loop_returns:
  assumes "length blocks \<le> length start_trials" "length blocks \<le> length end_trials"
  shows "block_loop blocks start_trials end_trials labels
           = Inr (map (\<lambda>block. map ((!) start_trials) (np_where_eq blocks block)) labels,
                  map (\<lambda>block. map ((!) end_trials) (np_where_eq blocks block)) labels)"
  by (induction labels) (simp_all add: take_idx_in_range assms Let_def)

lemma block_loop_result:
  "block_loop blocks start_trials end_trials labels = Inr (bs, be) \<Longrightarrow>
   bs = map (\<lambda>block. map ((!) start_trials) (np_where_eq blocks block)) labels
   \<and> be = map (\<lambda>block. map ((!) end_trials) (np_where_eq blocks block)) labels"
proof (induction labels arbitrary: bs be)
  case Nil
  then show ?case by simp
next
  case (Cons block rest)
  then show ?case
    by (auto simp: Let_def split: sum.splits prod.splits dest: take_idx_result)
qed

lemma segment_blocks_returns:
  assumes "length blocks \<le> length start_trials" "length blocks \<le> length end_trials"
  shows "segment_blocks blocks start_trials end_trials
           = Inr (map (\<lambda>block. map ((!) start_trials) (np_where_eq blocks block)) (np_unique blocks),
                  map (\<lambda>block. map ((!) end_trials) (np_where_eq blocks block)) (np_unique blocks),
                  np_unique blocks)"
  by (simp add: segment_blocks_def block_loop_returns [OF assms])

lemma segment_blocks_result:
  assumes "segment_blocks blocks start_trials end_trials = Inr (bs, be, labels)"
  shows "labels = np_unique blocks
         \<and> bs = map (\<lambda>block. map ((!) start_trials) (np_where_eq blocks block)) labels
         \<and> be = map (\<lambda>block. map ((!) end_trials) (np_where_eq blocks block)) labels"
proof -
  obtain bs' be' where loop: "block_loop blocks start_trials end_trials (np_unique blocks) = Inr (bs', be')"
    and eq: "bs = bs'" "be = be'" "labels = np_unique blocks"
    using assms by (auto simp: segment_blocks_def split: sum.splits prod.splits)
  show ?thesis using block_loop_result [OF loop] eq by simp
qed

lemma check_strobes_returns:
  "bhv_codes_of bhv = Inr bhv_codes \<Longrightarrow>
   \<exists>logs. check_strobes bhv full_word real_strobes = (logs, Inr ())"
  by (simp add: check_strobes_def)

lemma find_events_codes_returns:
  assumes "reconstruct_8bits_words (idx_real_strobes events) (map channel events) (map state events)
             = Inr full_word"
    and "bhv_codes_of bhv = Inr bhv_codes"
    and "trial_blocks (trials_of bhv) = Inr blocks"
    and "segment_blocks blocks
           (mask_select (map (\<lambda>i. timestamp (events ! i)) (idx_real_strobes events)) full_word START_CODE)
           (mask_select (map (\<lambda>i. timestamp (events ! i)) (idx_real_strobes events)) full_word END_CODE)
           = Inr seg"
  shows "snd (find_events_codes START_CODE END_CODE events bhv)
           = Inr (full_word, map (\<lambda>i. timestamp (events ! i)) (idx_real_strobes events), seg)"
proof -
  obtain logs where "check_strobes bhv full_word (idx_real_strobes events) = (logs, Inr ())"
    using check_strobes_returns [OF assms(2)] by blast
  then show ?thesis
    using assms(1,3,4) by (cases seg) (simp add: find_events_codes_def Let_def)
qed

lemma find_events_codes_result:
  assumes "snd (find_events_codes START_CODE END_CODE events bhv)
             = Inr (full_word, real_strobes, seg)"
  shows "reconstruct_8bits_words (idx_real_strobes events) (map channel events) (map state events)
           = Inr full_word
         \<and> real_strobes = map (\<lambda>i. timestamp (events ! i)) (idx_real_strobes events)
         \<and> (\<exists>blocks. trial_blocks (trials_of bhv) = Inr blocks
              \<and> segment_blocks blocks (mask_select real_strobes full_word START_CODE)
                    (mask_select real_strobes full_word END_CODE) = Inr seg)"
  using assms
  by (auto simp: find_events_codes_def Let_def split: sum.splits prod.splits)

text \<open>
  C3. Whenever the decoding succeeds, the behavioural record yields its codes and block
  labels, and there are at least as many start and end timestamps as trials,
  \<open>find_events_codes\<close> returns: the distinct block labels in ascending order of their
  value (\<open>np_unique\<close>), and for each of them, in that order, \<open>start_trials\<close> and
  \<open>end_trials\<close> read at the indices of the trials carrying the label. In particular the
  labels 1, 1, 2 with the start timestamps 10, 20, 30 give 10, 20 for label 1, 30 for
  label 2, and the distinct labels 1, 2.
\<close>

theorem block_segmentation_by_sorted_label:
  assumes "reconstruct_8bits_words (idx_real_strobes events) (map channel events) (map state events)
             = Inr full_word"
    and "bhv_codes_of bhv = Inr bhv_codes"
    and "trial_blocks (trials_of bhv) = Inr blocks"
    and "real_strobes = map (\<lambda>i. timestamp (events ! i)) (idx_real_strobes events)"
    and "start_trials = mask_select real_strobes full_word START_CODE"
    and "end_trials = mask_select real_strobes full_word END_CODE"
    and "length blocks \<le> length start_trials" and "length blocks \<le> length end_trials"
  shows "snd (find_events_codes START_CODE END_CODE events bhv)
           = Inr (full_word, real_strobes,
                  map (\<lambda>block. map ((!) start_trials) (np_where_eq blocks block)) (np_unique blocks),
                  map (\<lambda>block. map ((!) end_trials) (np_where_eq blocks block)) (np_unique blocks),
                  np_unique blocks)
         \<and> sorted_wrt (<) (np_unique blocks) \<and> set (np_unique blocks) = set blocks
         \<and> (blocks = [1, 1, 2] \<and> start_trials = [10, 20, 30] \<longrightarrow>
              np_unique blocks = [1, 2]
              \<and> map (\<lambda>block. map ((!) start_trials) (np_where_eq blocks block)) (np_unique blocks)
                  = [[10, 20], [30]])"
proof -
  have "segment_blocks blocks start_trials end_trials
      = Inr (map (\<lambda>block. map ((!) start_trials) (np_where_eq blocks block)) (np_unique blocks),
             map (\<lambda>block. map ((!) end_trials) (np_where_eq blocks block)) (np_unique blocks),
             np_unique blocks)"
    using assms(7,8) by (rule segment_blocks_returns)
  then have ret: "snd (find_events_codes START_CODE END_CODE events bhv)
      = Inr (full_word, real_strobes,
             map (\<lambda>block. map ((!) start_trials) (np_where_eq blocks block)) (np_unique blocks),
             map (\<lambda>block. map ((!) end_trials) (np_where_eq blocks block)) (np_unique blocks),
             np_unique blocks)"
    unfolding assms(4,5,6) by (rule find_events_codes_returns [OF assms(1,2,3)])
  have u: "np_unique [1, 1, 2] = [1, 2]" by code_simp
  have g: "map (\<lambda>block. map ((!) [10, 20, 30 :: int]) (np_where_eq [1, 1, 2] block)) [1, 2]
             = [[10, 20], [30]]" by code_simp
  show ?thesis
    using ret np_unique_ascending [of blocks] set_np_unique [of blocks] u g by auto
qed

theorem block_segmentation_by_sorted_label_witness:
  "snd (find_events_codes 1 2 (trial_events 0 3) (labelled_bhv [1, 1, 2]))
     = Inr ([1, 2, 1, 2, 1, 2], [10, 15, 20, 25, 30, 35], [[10, 20], [30]], [[15, 25], [35]], [1, 2])"
proof -
  have a1: "reconstruct_8bits_words (idx_real_strobes (trial_events 0 3))
      (map channel (trial_events 0 3)) (map state (trial_events 0 3)) = Inr [1, 2, 1, 2, 1, 2]"
    by code_simp
  have a2: "bhv_codes_of (labelled_bhv [1, 1, 2]) = Inr [1, 2, 1, 2, 1, 2]" by code_simp
  have a3: "trial_blocks (trials_of (labelled_bhv [1, 1, 2])) = Inr [1, 1, 2]" by code_simp
  have a4: "[10, 15, 20, 25, 30, 35]
      = map (\<lambda>i. timestamp (trial_events 0 3 ! i)) (idx_real_strobes (trial_events 0 3))"
    by code_simp
  have a5: "[10, 20, 30] = mask_select [10, 15, 20, 25, 30, 35] [1, 2, 1, 2, 1, 2] 1" by code_simp
  have a6: "[15, 25, 35] = mask_select [10, 15, 20, 25, 30, 35] [1, 2, 1, 2, 1, 2] 2" by code_simp
  have a7: "length [1, 1, 2 :: int] \<le> length [10, 20, 30 :: int]" by simp
  have a8: "length [1, 1, 2 :: int] \<le> length [15, 25, 35 :: int]" by simp
  have u: "np_unique [1, 1, 2] = [1, 2]" by code_simp
  have g1: "map (\<lambda>block. map ((!) [10, 20, 30 :: int]) (np_where_eq [1, 1, 2] block)) [1, 2]
             = [[10, 20], [30]]" by code_simp
  have g2: "map (\<lambda>block. map ((!) [15, 25, 35 :: int]) (np_where_eq [1, 1, 2] block)) [1, 2]
             = [[15, 25], [35]]" by code_simp
  show ?thesis
    using block_segmentation_by_sorted_label [OF a1 a2 a3 a4 a5 a6 a7 a8, THEN conjunct1]
    by (simp only: u g1 g2)
qed

text \<open>
  C4, as stated, fails: with the block labels 2, 1 (the larger label first) the group of
  label 1, holding the second trial's timestamps, comes before the group of label 2.
\<close>

theorem first_occurrence_order_counterexample:
  "trial_blocks (trials_of (labelled_bhv [2, 1])) = Inr [2, 1]
   \<and> snd (find_events_codes 1 2 (trial_events 0 2) (labelled_bhv [2, 1]))
       = Inr ([1, 2, 1, 2], [10, 15, 20, 25], [[20], [10]], [[25], [15]], [1, 2])"
  by code_simp

text \<open>
  C4, amended. The per-block start and end timestamp lists returned by
  \<open>find_events_codes\<close> are grouped in ascending order of the distinct block labels, not
  by first occurrence: for any two labels \<open>a < b\<close> carried by trials, the group of \<open>a\<close>
  stands before the group of \<open>b\<close> in the output, whichever label appears first among
  the trials.
\<close>

theorem block_groups_in_label_order:
  assumes "snd (find_events_codes START_CODE END_CODE events bhv)
             = Inr (full_word, real_strobes, bl_start_trials, bl_end_trials, labels)"
    and "trial_blocks (trials_of bhv) = Inr blocks"
    and "a \<in> set blocks" and "b \<in> set blocks" and "a < b"
  shows "\<exists>i j. i < j \<and> j < length labels
           \<and> length bl_start_trials = length labels \<and> length bl_end_trials = length labels
           \<and> labels ! i = a \<and> labels ! j = b
           \<and> bl_start_trials ! i
               = map ((!) (mask_select real_strobes full_word START_CODE)) (np_where_eq blocks a)
           \<and> bl_start_trials ! j
               = map ((!) (mask_select real_strobes full_word START_CODE)) (np_where_eq blocks b)
           \<and> bl_end_trials ! i
               = map ((!) (mask_select real_strobes full_word END_CODE)) (np_where_eq blocks a)
           \<and> bl_end_trials ! j
               = map ((!) (mask_select real_strobes full_word END_CODE)) (np_where_eq blocks b)"
proof -
  let ?st = "mask_select real_strobes full_word START_CODE"
  let ?en = "mask_select real_strobes full_word END_CODE"
  have "segment_blocks blocks ?st ?en = Inr (bl_start_trials, bl_end_trials, labels)"
    using find_events_codes_result [OF assms(1)] assms(2) by auto
  then have labels: "labels = np_unique blocks"
    and bs: "bl_start_trials = map (\<lambda>block. map ((!) ?st) (np_where_eq blocks block)) labels"
    and be: "bl_end_trials = map (\<lambda>block. map ((!) ?en) (np_where_eq blocks block)) labels"
    using segment_blocks_result by blast+
  have asc: "sorted_wrt (<) labels" unfolding labels by (rule np_unique_ascending)
  have "a \<in> set labels" "b \<in> set labels"
    using assms(3,4) by (simp_all add: labels set_np_unique)
  then obtain i j where i: "i < length labels" "labels ! i = a"
    and j: "j < length labels" "labels ! j = b"
    by (auto simp: in_set_conv_nth)
  have "i < j"
  proof (rule ccontr)
    assume "\<not> i < j"
    then have "j \<le> i" by simp
    then have "labels ! j \<le> labels ! i"
      using asc i(1) by (simp add: strict_sorted_iff sorted_nth_mono)
    then show False using i(2) j(2) assms(5) by simp
  qed
  moreover have "bl_start_trials ! i = map ((!) ?st) (np_where_eq blocks a)"
    "bl_end_trials ! i = map ((!) ?en) (np_where_eq blocks a)"
    using i by (subst bs be, simp)+
  moreover have "bl_start_trials ! j = map ((!) ?st) (np_where_eq blocks b)"
    "bl_end_trials ! j = map ((!) ?en) (np_where_eq blocks b)"
    using j by (subst bs be, simp)+
  moreover have "length bl_start_trials = length labels" "length bl_end_trials = length labels"
    by (subst bs be, simp)+
  ultimately show ?thesis using i j by blast
qed

theorem block_groups_in_label_order_witness:
  "\<exists>i j. i < j \<and> j < length [1, 2 :: int]
     \<and> length [[20], [10 :: int]] = length [1, 2 :: int]
     \<and> length [[25], [15 :: int]] = length [1, 2 :: int]
     \<and> [1, 2 :: int] ! i = 1 \<and> [1, 2 :: int] ! j = 2
     \<and> [[20], [10]] ! i = map ((!) (mask_select [10, 15, 20, 25] [1, 2, 1, 2] 1)) (np_where_eq [2, 1] 1)
     \<and> [[20], [10]] ! j = map ((!) (mask_select [10, 15, 20, 25] [1, 2, 1, 2] 1)) (np_where_eq [2, 1] 2)
     \<and> [[25], [15]] ! i = map ((!) (mask_select [10, 15, 20, 25] [1, 2, 1, 2] 2)) (np_where_eq [2, 1] 1)
     \<and> [[25], [15]] ! j = map ((!) (mask_select [10, 15, 20, 25] [1, 2, 1, 2] 2)) (np_where_eq [2, 1] 2)"
proof -
  have r: "snd (find_events_codes 1 2 (trial_events 0 2) (labelled_bhv [2, 1]))
       = Inr ([1, 2, 1, 2], [10, 15, 20, 25], [[20], [10]], [[25], [15]], [1, 2])"
    by code_simp
  have b: "trial_blocks (trials_of (labelled_bhv [2, 1])) = Inr [2, 1]" by code_simp
  have m1: "(1::int) \<in> set [2, 1]" and m2: "(2::int) \<in> set [2, 1]" and lt: "(1::int) < 2"
    by simp_all
  show ?thesis
    by (rule block_groups_in_label_order [OF r b m1 m2 lt])
qed

section \<open>The claims about the cross-validation\<close>

lemma sum_list_diff_self: "sum_list (map2 (-) xs xs) = (0::int)"
  by (induction xs) simp_all

lemma one_trial_codes: "bhv_codes_of (one_trial_bhv codes) = Inr codes"
  by (simp add: bhv_codes_of_def one_trial_bhv_def trials_of_def np_concatenate_def)

lemma np_sum_diff_nonzero_exact:
  "float64_exact bhv_codes full_word \<Longrightarrow>
   np_sum_diff_nonzero bhv_codes full_word = {sum_list (map2 (-) bhv_codes full_word) \<noteq> 0}"
  by (simp add: np_sum_diff_nonzero_def)

lemma np_sum_diff_nonzero_nonempty: "np_sum_diff_nonzero bhv_codes full_word \<noteq> {}"
  by (simp add: np_sum_diff_nonzero_def)

lemma check_strobes_log_exact:
  assumes "bhv_codes_of bhv = Inr bhv_codes"
    and "float64_exact bhv_codes full_word \<or> length full_word \<noteq> length bhv_codes"
  shows "fst (check_strobes bhv full_word real_strobes) =
      {(if length full_word \<noteq> length real_strobes
        then [(''Warning, Strobe and codes number do not match'', []),
              (''Strobes ='', [int (length real_strobes)]),
              (''codes number ='', [int (length full_word)])]
        else [(''Strobe and codes number do match'', []),
              (''Strobes = %d'', [int (length real_strobes)]),
              (''codes number = %d'', [int (length full_word)])])
       @
       (if length full_word \<noteq> length bhv_codes
        then [(''Warning, ML and OE code numbers do not match'', [])]
        else (''ML and OE code numbers do match'', []) #
             (if sum_list (map2 (-) bhv_codes full_word) \<noteq> 0
              then [(''Warning, ML and OE codes are different'', [])]
              else [(''ML and OE codes are the same'', [])]))}"
proof (cases "length full_word \<noteq> length bhv_codes")
  case True
  then show ?thesis
    using np_sum_diff_nonzero_nonempty [of bhv_codes full_word]
    by (auto simp: check_strobes_def assms(1))
next
  case False
  then have "float64_exact bhv_codes full_word" using assms(2) by simp
  then show ?thesis
    using False by (simp add: check_strobes_def assms(1) np_sum_diff_nonzero_exact)
qed

text \<open>
  C7. For every behavioural record that yields a code sequence and every decoded-word
  sequence of the same length, the values within the range in which float64 arithmetic
  is exact, \<open>check_strobes\<close> returns normally and leaves one log; when the sum of the
  elementwise differences (behavioural code minus decoded word) is not zero the log
  holds the value-mismatch warning (and not the success message), and when the two
  sequences are equal it holds the success message (and not the warning). In particular
  the decoded words 3, 7, 2 against the behavioural codes 3, 7, 5 give the warning and
  no exception.
\<close>

theorem check_strobes_value_check:
  assumes "bhv_codes_of bhv = Inr bhv_codes" and "length full_word = length bhv_codes"
    and "float64_exact bhv_codes full_word"
  shows "snd (check_strobes bhv full_word real_strobes) = Inr ()
         \<and> (\<exists>logs. fst (check_strobes bhv full_word real_strobes) = {logs}
              \<and> (sum_list (map2 (-) bhv_codes full_word) \<noteq> 0 \<longrightarrow>
                    codes_differ_warning \<in> set logs \<and> codes_same_message \<notin> set logs)
              \<and> (bhv_codes = full_word \<longrightarrow>
                    codes_same_message \<in> set logs \<and> codes_differ_warning \<notin> set logs)
              \<and> (bhv_codes = [3, 7, 5] \<and> full_word = [3, 7, 2] \<longrightarrow>
                    codes_differ_warning \<in> set logs))"
proof -
  let ?logs = "(if length full_word \<noteq> length real_strobes
       then [(''Warning, Strobe and codes number do not match'', []),
             (''Strobes ='', [int (length real_strobes)]),
             (''codes number ='', [int (length full_word)])]
       else [(''Strobe and codes number do match'', []),
             (''Strobes = %d'', [int (length real_strobes)]),
             (''codes number = %d'', [int (length full_word)])])
      @ (''ML and OE code numbers do match'', []) #
        (if sum_list (map2 (-) bhv_codes full_word) \<noteq> 0
         then [(''Warning, ML and OE codes are different'', [])]
         else [(''ML and OE codes are the same'', [])])"
  have ret: "snd (check_strobes bhv full_word real_strobes) = Inr ()"
    by (simp add: check_strobes_def assms(1))
  have logs: "fst (check_strobes bhv full_word real_strobes) = {?logs}"
    using check_strobes_log_exact [OF assms(1), of full_word real_strobes] assms(2,3) by simp
  have differ: "codes_differ_warning \<in> set ?logs \<and> codes_same_message \<notin> set ?logs"
    if "sum_list (map2 (-) bhv_codes full_word) \<noteq> 0"
    using that by (simp add: codes_differ_warning_def codes_same_message_def)
  have same: "codes_same_message \<in> set ?logs \<and> codes_differ_warning \<notin> set ?logs"
    if "bhv_codes = full_word"
    using that by (simp add: codes_differ_warning_def codes_same_message_def sum_list_diff_self)
  have "sum_list (map2 (-) bhv_codes full_word) \<noteq> 0"
    if "bhv_codes = [3, 7, 5] \<and> full_word = [3, 7, 2]"
    using that by simp
  then show ?thesis using ret logs differ same by blast
qed

theorem check_strobes_value_check_witness:
  "check_strobes (one_trial_bhv [3, 7, 5]) [3, 7, 2] [0, 1, 2]
     = ({[(''Strobe and codes number do match'', []), (''Strobes = %d'', [3]),
          (''codes number = %d'', [3]), (''ML and OE code numbers do match'', []),
          (''Warning, ML and OE codes are different'', [])]}, Inr ())
   \<and> (\<exists>logs. fst (check_strobes (one_trial_bhv [3, 7, 5]) [3, 7, 2] [0, 1, 2]) = {logs}
         \<and> codes_differ_warning \<in> set logs \<and> codes_same_message \<notin> set logs)
   \<and> (\<exists>logs. fst (check_strobes (one_trial_bhv [3, 7, 2]) [3, 7, 2] [0, 1, 2]) = {logs}
         \<and> codes_same_message \<in> set logs \<and> codes_differ_warning \<notin> set logs)"
proof -
  have len: "length [3, 7, 2 :: int] = length [3, 7, 5 :: int]" by simp
  have len2: "length [3, 7, 2 :: int] = length [3, 7, 2 :: int]" by simp
  have ex: "float64_exact [3, 7, 5] [3, 7, 2]" by code_simp
  have ex2: "float64_exact [3, 7, 2] [3, 7, 2]" by code_simp
  have sum: "sum_list (map2 (-) [3, 7, 5] [3, 7, 2 :: int]) \<noteq> 0" by simp
  have val: "check_strobes (one_trial_bhv [3, 7, 5]) [3, 7, 2] [0, 1, 2]
     = ({[(''Strobe and codes number do match'', []), (''Strobes = %d'', [3]),
          (''codes number = %d'', [3]), (''ML and OE code numbers do match'', []),
          (''Warning, ML and OE codes are different'', [])]}, Inr ())"
    by code_simp
  show ?thesis
    using check_strobes_value_check [OF one_trial_codes len ex, of "[0, 1, 2]"]
      check_strobes_value_check [OF one_trial_codes len2 ex2, of "[0, 1, 2]"] sum val
    by blast
qed

text \<open>
  C10. The decoded words 3, 7, 2 and the behavioural codes 2, 8, 2 have the same length
  and differ in two places, yet the differences -1, 1, 0 sum to zero (exactly, also in
  float64): \<open>check_strobes\<close> leaves one log, which says that the codes are the same and
  holds no mismatch warning.
\<close>

theorem cancelling_differences_pass:
  "bhv_codes_of (one_trial_bhv [2, 8, 2]) = Inr [2, 8, 2]
   \<and> length [3, 7, 2 :: int] = length [2, 8, 2 :: int]
   \<and> [3, 7, 2] \<noteq> [2, 8, 2 :: int]
   \<and> map2 (-) [2, 8, 2] [3, 7, 2 :: int] = [-1, 1, 0]
   \<and> float64_exact [2, 8, 2] [3, 7, 2]
   \<and> check_strobes (one_trial_bhv [2, 8, 2]) [3, 7, 2] [0, 1, 2]
       = ({[(''Strobe and codes number do match'', []), (''Strobes = %d'', [3]),
            (''codes number = %d'', [3]), (''ML and OE code numbers do match'', []),
            (''ML and OE codes are the same'', [])]}, Inr ())
   \<and> (\<exists>logs. fst (check_strobes (one_trial_bhv [2, 8, 2]) [3, 7, 2] [0, 1, 2]) = {logs}
         \<and> codes_same_message \<in> set logs
         \<and> codes_differ_warning \<notin> set logs
         \<and> code_count_warning \<notin> set logs
         \<and> strobe_count_warning \<notin> set logs)"
proof -
  have val: "check_strobes (one_trial_bhv [2, 8, 2]) [3, 7, 2] [0, 1, 2]
       = ({[(''Strobe and codes number do match'', []), (''Strobes = %d'', [3]),
            (''codes number = %d'', [3]), (''ML and OE code numbers do match'', []),
            (''ML and OE codes are the same'', [])]}, Inr ())"
    by code_simp
  have mem: "codes_same_message \<in> set [(''Strobe and codes number do match'', []), (''Strobes = %d'', [3]),
            (''codes number = %d'', [3]), (''ML and OE code numbers do match'', []),
            (''ML and OE codes are the same'', [])]
      \<and> codes_differ_warning \<notin> set [(''Strobe and codes number do match'', []), (''Strobes = %d'', [3]),
            (''codes number = %d'', [3]), (''ML and OE code numbers do match'', []),
            (''ML and OE codes are the same'', [])]
      \<and> code_count_warning \<notin> set [(''Strobe and codes number do match'', []), (''Strobes = %d'', [3]),
            (''codes number = %d'', [3]), (''ML and OE code numbers do match'', []),
            (''ML and OE codes are the same'', [])]
      \<and> strobe_count_warning \<notin> set [(''Strobe and codes number do match'', []), (''Strobes = %d'', [3]),
            (''codes number = %d'', [3]), (''ML and OE code numbers do match'', []),
            (''ML and OE codes are the same'', [])]"
    by code_simp
  have rest: "bhv_codes_of (one_trial_bhv [2, 8, 2]) = Inr [2, 8, 2]
      \<and> length [3, 7, 2 :: int] = length [2, 8, 2 :: int]
      \<and> [3, 7, 2] \<noteq> [2, 8, 2 :: int]
      \<and> map2 (-) [2, 8, 2] [3, 7, 2 :: int] = [-1, 1, 0]
      \<and> float64_exact [2, 8, 2] [3, 7, 2]"
    by code_simp
  show ?thesis using val mem rest by simp
qed

subsection \<open>When the block segmentation raises\<close>

lemma take_idx_error: "take_idx arr idx = Inl e \<Longrightarrow> e = IndexError"
  by (simp add: take_idx_def split: if_splits)

lemma take_idx_short:
  "i \<in> set idx \<Longrightarrow> length arr \<le> i \<Longrightarrow> take_idx arr idx = Inl IndexError"
  by (force simp: take_idx_def list_all_iff not_less)

lemma block_loop_error:
  "block_loop blocks start_trials end_trials labels = Inl e \<Longrightarrow> e = IndexError"
proof (induction labels)
  case Nil
  then show ?case by simp
next
  case (Cons block rest)
  then show ?case
    by (auto simp: Let_def split: sum.splits prod.splits dest: take_idx_error)
qed

lemma block_loop_raises:
  assumes "block \<in> set labels"
    and "take_idx start_trials (np_where_eq blocks block) = Inl IndexError
         \<or> take_idx end_trials (np_where_eq blocks block) = Inl IndexError"
  shows "block_loop blocks start_trials end_trials labels = Inl IndexError"
  using assms(1)
proof (induction labels)
  case Nil
  then show ?case by simp
next
  case (Cons a rest)
  show ?case
  proof (cases "block = a")
    case True
    then show ?thesis
      using assms(2) by (auto simp: Let_def split: sum.splits dest: take_idx_error)
  next
    case False
    then have "block_loop blocks start_trials end_trials rest = Inl IndexError"
      using Cons by simp
    then show ?thesis
      by (auto simp: Let_def split: sum.splits dest: take_idx_error)
  qed
qed

lemma np_where_eq_self: "i < length arr \<Longrightarrow> i \<in> set (np_where_eq arr (arr ! i))"
  by (simp add: np_where_eq_def)

lemma segment_blocks_raises:
  assumes "length start_trials < length blocks \<or> length end_trials < length blocks"
  shows "segment_blocks blocks start_trials end_trials = Inl IndexError"
proof -
  have "\<exists>block\<in>set (np_unique blocks).
          take_idx start_trials (np_where_eq blocks block) = Inl IndexError
          \<or> take_idx end_trials (np_where_eq blocks block) = Inl IndexError"
    using assms
  proof
    assume short: "length start_trials < length blocks"
    then have "blocks ! length start_trials \<in> set (np_unique blocks)"
      by (simp add: set_np_unique)
    moreover have "take_idx start_trials (np_where_eq blocks (blocks ! length start_trials))
        = Inl IndexError"
      using np_where_eq_self [OF short] by (rule take_idx_short) simp
    ultimately show ?thesis by blast
  next
    assume short: "length end_trials < length blocks"
    then have "blocks ! length end_trials \<in> set (np_unique blocks)"
      by (simp add: set_np_unique)
    moreover have "take_idx end_trials (np_where_eq blocks (blocks ! length end_trials))
        = Inl IndexError"
      using np_where_eq_self [OF short] by (rule take_idx_short) simp
    ultimately show ?thesis by blast
  qed
  then have "block_loop blocks start_trials end_trials (np_unique blocks) = Inl IndexError"
    using block_loop_raises by blast
  then show ?thesis by (simp add: segment_blocks_def)
qed

lemma find_events_codes_log:
  assumes "reconstruct_8bits_words (idx_real_strobes events) (map channel events) (map state events)
             = Inr full_word"
  shows "fst (find_events_codes START_CODE END_CODE events bhv)
           = (@) [(''Reconstructing 8 bit words'', [])]
               ` fst (check_strobes bhv full_word (idx_real_strobes events))"
  using assms
  by (auto simp: find_events_codes_def Let_def split: sum.splits prod.splits)

lemma find_events_codes_raises:
  assumes "reconstruct_8bits_words (idx_real_strobes events) (map channel events) (map state events)
             = Inr full_word"
    and "bhv_codes_of bhv = Inr bhv_codes"
    and "trial_blocks (trials_of bhv) = Inr blocks"
    and "segment_blocks blocks
           (mask_select (map (\<lambda>i. timestamp (events ! i)) (idx_real_strobes events)) full_word START_CODE)
           (mask_select (map (\<lambda>i. timestamp (events ! i)) (idx_real_strobes events)) full_word END_CODE)
           = Inl e"
  shows "snd (find_events_codes START_CODE END_CODE events bhv) = Inl e"
proof -
  obtain logs where "check_strobes bhv full_word (idx_real_strobes events) = (logs, Inr ())"
    using check_strobes_returns [OF assms(2)] by blast
  then show ?thesis
    using assms(1,3,4) by (simp add: find_events_codes_def Let_def)
qed

text \<open>
  C8, as stated, fails in its second sentence: the aligner does raise after a mismatch.
  With one recorded trial (words 1, 2) against a record of two trials (codes 1, 2, 1, 2)
  \<open>find_events_codes\<close> logs the count warning and then raises \<^verbatim>\<open>IndexError\<close> in the block
  segmentation; with the second start word miscoded (words 1, 2, 4, 2, the counts equal)
  it logs the value warning and raises the same way.
\<close>

theorem aligner_raises_after_mismatch:
  "find_events_codes 1 2 (trial_events 0 1) (labelled_bhv [1, 1])
     = ({[(''Reconstructing 8 bit words'', []),
          (''Strobe and codes number do match'', []), (''Strobes = %d'', [2]),
          (''codes number = %d'', [2]),
          (''Warning, ML and OE code numbers do not match'', [])]}, Inl IndexError)
   \<and> find_events_codes 1 2 miscoded_events (labelled_bhv [1, 1])
     = ({[(''Reconstructing 8 bit words'', []),
          (''Strobe and codes number do match'', []), (''Strobes = %d'', [4]),
          (''codes number = %d'', [4]), (''ML and OE code numbers do match'', []),
          (''Warning, ML and OE codes are different'', [])]}, Inl IndexError)"
  by code_simp

text \<open>
  C8, amended. For every behavioural record that yields a code sequence, every
  strobe-index array and every decoded-word array, \<open>check_strobes\<close> returns normally,
  whatever the counts and values are; when the number of words differs from the number
  of strobes every log it can leave holds the count-mismatch warning, and when it
  differs from the number of behavioural codes every log holds that count warning.
  \<open>find_events_codes\<close> keeps what \<open>check_strobes\<close> logged and goes on to the block
  segmentation: it returns normally when there are at least as many start and as many
  end timestamps as trials, and raises \<^verbatim>\<open>IndexError\<close> otherwise, mismatch or not.
\<close>

theorem mismatch_logged_segmentation_decides:
  assumes "bhv_codes_of bhv = Inr bhv_codes"
  shows "snd (check_strobes bhv full_word real_strobes) = Inr ()
         \<and> fst (check_strobes bhv full_word real_strobes) \<noteq> {}
         \<and> (length full_word \<noteq> length real_strobes \<longrightarrow>
              (\<forall>logs\<in>fst (check_strobes bhv full_word real_strobes). strobe_count_warning \<in> set logs))
         \<and> (length full_word \<noteq> length bhv_codes \<longrightarrow>
              (\<forall>logs\<in>fst (check_strobes bhv full_word real_strobes). code_count_warning \<in> set logs))
         \<and> (reconstruct_8bits_words (idx_real_strobes events) (map channel events) (map state events)
                = Inr words
             \<and> trial_blocks (trials_of bhv) = Inr blocks
             \<and> timestamps = map (\<lambda>i. timestamp (events ! i)) (idx_real_strobes events)
             \<and> start_trials = mask_select timestamps words START_CODE
             \<and> end_trials = mask_select timestamps words END_CODE \<longrightarrow>
              fst (find_events_codes START_CODE END_CODE events bhv)
                = (@) [(''Reconstructing 8 bit words'', [])]
                    ` fst (check_strobes bhv words (idx_real_strobes events))
              \<and> snd (find_events_codes START_CODE END_CODE events bhv)
                = (if length blocks \<le> length start_trials \<and> length blocks \<le> length end_trials
                   then Inr (words, timestamps,
                          map (\<lambda>block. map ((!) start_trials) (np_where_eq blocks block)) (np_unique blocks),
                          map (\<lambda>block. map ((!) end_trials) (np_where_eq blocks block)) (np_unique blocks),
                          np_unique blocks)
                   else Inl IndexError))"
proof -
  have ret: "snd (check_strobes bhv full_word real_strobes) = Inr ()"
    by (simp add: check_strobes_def assms)
  have ne: "fst (check_strobes bhv full_word real_strobes) \<noteq> {}"
    by (simp add: check_strobes_def assms np_sum_diff_nonzero_nonempty)
  have strobes: "\<forall>logs\<in>fst (check_strobes bhv full_word real_strobes). strobe_count_warning \<in> set logs"
    if "length full_word \<noteq> length real_strobes"
    using that by (auto simp: check_strobes_def assms strobe_count_warning_def)
  have codes: "\<forall>logs\<in>fst (check_strobes bhv full_word real_strobes). code_count_warning \<in> set logs"
    if "length full_word \<noteq> length bhv_codes"
    using that by (auto simp: check_strobes_def assms code_count_warning_def)
  have aligner: "fst (find_events_codes START_CODE END_CODE events bhv)
        = (@) [(''Reconstructing 8 bit words'', [])]
            ` fst (check_strobes bhv words (idx_real_strobes events))
      \<and> snd (find_events_codes START_CODE END_CODE events bhv)
        = (if length blocks \<le> length start_trials \<and> length blocks \<le> length end_trials
           then Inr (words, timestamps,
                  map (\<lambda>block. map ((!) start_trials) (np_where_eq blocks block)) (np_unique blocks),
                  map (\<lambda>block. map ((!) end_trials) (np_where_eq blocks block)) (np_unique blocks),
                  np_unique blocks)
           else Inl IndexError)"
    if dec: "reconstruct_8bits_words (idx_real_strobes events) (map channel events) (map state events)
          = Inr words"
      and bl: "trial_blocks (trials_of bhv) = Inr blocks"
      and ts: "timestamps = map (\<lambda>i. timestamp (events ! i)) (idx_real_strobes events)"
      and st: "start_trials = mask_select timestamps words START_CODE"
      and en: "end_trials = mask_select timestamps words END_CODE"
  proof (cases "length blocks \<le> length start_trials \<and> length blocks \<le> length end_trials")
    case True
    then have "segment_blocks blocks start_trials end_trials
        = Inr (map (\<lambda>block. map ((!) start_trials) (np_where_eq blocks block)) (np_unique blocks),
               map (\<lambda>block. map ((!) end_trials) (np_where_eq blocks block)) (np_unique blocks),
               np_unique blocks)"
      by (simp add: segment_blocks_returns)
    then have "snd (find_events_codes START_CODE END_CODE events bhv)
        = Inr (words, timestamps,
               map (\<lambda>block. map ((!) start_trials) (np_where_eq blocks block)) (np_unique blocks),
               map (\<lambda>block. map ((!) end_trials) (np_where_eq blocks block)) (np_unique blocks),
               np_unique blocks)"
      unfolding ts st en by (rule find_events_codes_returns [OF dec assms bl])
    then show ?thesis using True find_events_codes_log [OF dec] by simp
  next
    case False
    then have "segment_blocks blocks start_trials end_trials = Inl IndexError"
      by (intro segment_blocks_raises) auto
    then have "snd (find_events_codes START_CODE END_CODE events bhv) = Inl IndexError"
      unfolding ts st en by (rule find_events_codes_raises [OF dec assms bl])
    then show ?thesis using False find_events_codes_log [OF dec] by simp
  qed
  show ?thesis using ret ne strobes codes aligner by blast
qed

theorem mismatch_logged_segmentation_decides_witness:
  "check_strobes (labelled_bhv [1, 1]) [1, 2] [1, 5, 9]
     = ({[(''Warning, Strobe and codes number do not match'', []), (''Strobes ='', [3]),
          (''codes number ='', [2]), (''Warning, ML and OE code numbers do not match'', [])]},
        Inr ())
   \<and> snd (find_events_codes 1 2 (trial_events 0 1) (labelled_bhv [1, 1])) = Inl IndexError
   \<and> fst (find_events_codes 1 2 (trial_events 0 1) (labelled_bhv [1, 1]))
       = (@) [(''Reconstructing 8 bit words'', [])]
           ` fst (check_strobes (labelled_bhv [1, 1]) [1, 2] (idx_real_strobes (trial_events 0 1)))"
proof -
  have codes: "bhv_codes_of (labelled_bhv [1, 1]) = Inr [1, 2, 1, 2]" by code_simp
  have dec: "reconstruct_8bits_words (idx_real_strobes (trial_events 0 1))
      (map channel (trial_events 0 1)) (map state (trial_events 0 1)) = Inr [1, 2]"
    by code_simp
  have bl: "trial_blocks (trials_of (labelled_bhv [1, 1])) = Inr [1, 1]" by code_simp
  have ts: "[10, 15] = map (\<lambda>i. timestamp (trial_events 0 1 ! i)) (idx_real_strobes (trial_events 0 1))"
    by code_simp
  have st: "[10] = mask_select [10, 15] [1, 2] 1" by code_simp
  have en: "[15] = mask_select [10, 15] [1, 2] 2" by code_simp
  have val: "check_strobes (labelled_bhv [1, 1]) [1, 2] [1, 5, 9]
     = ({[(''Warning, Strobe and codes number do not match'', []), (''Strobes ='', [3]),
          (''codes number ='', [2]), (''Warning, ML and OE code numbers do not match'', [])]},
        Inr ())"
    by code_simp
  have short: "\<not> (length [1, 1 :: int] \<le> length [10 :: int] \<and> length [1, 1 :: int] \<le> length [15 :: int])"
    by simp
  have "fst (find_events_codes 1 2 (trial_events 0 1) (labelled_bhv [1, 1]))
          = (@) [(''Reconstructing 8 bit words'', [])]
              ` fst (check_strobes (labelled_bhv [1, 1]) [1, 2] (idx_real_strobes (trial_events 0 1)))
        \<and> snd (find_events_codes 1 2 (trial_events 0 1) (labelled_bhv [1, 1]))
          = (if length [1, 1 :: int] \<le> length [10 :: int] \<and> length [1, 1 :: int] \<le> length [15 :: int]
             then Inr ([1, 2], [10, 15],
                    map (\<lambda>block. map ((!) [10]) (np_where_eq [1, 1] block)) (np_unique [1, 1]),
                    map (\<lambda>block. map ((!) [15]) (np_where_eq [1, 1] block)) (np_unique [1, 1]),
                    np_unique [1, 1])
             else Inl IndexError)"
    using mismatch_logged_segmentation_decides [OF codes, of "[1, 2]" "[1, 5, 9]"
        "trial_events 0 1" "[1, 2]" "[1, 1]" "[10, 15]" "[10]" 1 "[15]" 2]
      dec bl ts st en
    by blast
  then have "fst (find_events_codes 1 2 (trial_events 0 1) (labelled_bhv [1, 1]))
          = (@) [(''Reconstructing 8 bit words'', [])]
              ` fst (check_strobes (labelled_bhv [1, 1]) [1, 2] (idx_real_strobes (trial_events 0 1)))
        \<and> snd (find_events_codes 1 2 (trial_events 0 1) (labelled_bhv [1, 1])) = Inl IndexError"
    by (simp only: short if_False)
  then show ?thesis using val by blast
qed

section \<open>Inputs outside the hypotheses\<close>

text \<open>
  A strobe index that sits on a data-line event. The source scans from index 0 for every
  strobe, so the event at index 1 is picked up by the strobe at index 2; the window of
  the specification runs from the previous strobe's index, exclusive, and leaves it out.
\<close>

theorem strobe_on_data_line_differs:
  "reconstruct_8bits_words [1, 2] [8, 1, 8] [1, 1, 1] = Inr [0, 1]
   \<and> spec_decode [8, 1, 8] [1, 1, 1] [1, 2] = [0, 0]"
  by code_simp

text \<open>
  A behavioural record without a trial between its first and last member:
  \<^verbatim>\<open>np.concatenate\<close> raises \<^verbatim>\<open>ValueError\<close> before anything is compared or logged.
\<close>

theorem check_strobes_without_trials:
  "check_strobes (labelled_bhv []) full_word real_strobes = ({[]}, Inl ValueError)"
  by (simp add: check_strobes_def bhv_codes_of_def labelled_bhv_def trials_of_def
      np_concatenate_def)

text \<open>
  Values beyond the range in which float64 is exact: for the code \<open>2 ^ 53 + 1\<close> against
  the word \<open>2 ^ 53\<close> the model allows both messages (the rounded difference is what
  decides).
\<close>

theorem check_strobes_beyond_float64_exact:
  "check_strobes (one_trial_bhv [2 ^ 53 + 1]) [2 ^ 53] [0]
     = ({[(''Strobe and codes number do match'', []), (''Strobes = %d'', [1]),
          (''codes number = %d'', [1]), (''ML and OE code numbers do match'', []),
          (''Warning, ML and OE codes are different'', [])],
         [(''Strobe and codes number do match'', []), (''Strobes = %d'', [1]),
          (''codes number = %d'', [1]), (''ML and OE code numbers do match'', []),
          (''ML and OE codes are the same'', [])]}, Inr ())"
  by code_simp

end
